theory Spec2Isabelle
  imports Complex_Main "HOL-Library.Word" "HOL-Library.Sublist" "HOL-Library.Multiset"
    "HOL-Library.Product_Lexorder"
begin

unbundle bit_operations_syntax

section \<open>Library functions the Go code calls\<close>

subsection \<open>crypto/sha256 and the \<open>%x\<close> verb\<close>

text \<open>
  \<open>sha256.Sum256\<close> is FIPS 180-4 SHA-256 over the bytes of the string. A Go string is
  a byte sequence; it is modelled by \<open>string\<close>, whose characters are bytes.
\<close>

type_synonym u32 = "32 word"

definition rotr :: "nat \<Rightarrow> u32 \<Rightarrow> u32" where
  "rotr n x = (drop_bit n x) OR (push_bit (32 - n) x)"

definition K256 :: "u32 list" where
  "K256 = [
  0x428A2F98, 0x71374491, 0xB5C0FBCF, 0xE9B5DBA5, 0x3956C25B, 0x59F111F1, 0x923F82A4, 0xAB1C5ED5,
  0xD807AA98, 0x12835B01, 0x243185BE, 0x550C7DC3, 0x72BE5D74, 0x80DEB1FE, 0x9BDC06A7, 0xC19BF174,
  0xE49B69C1, 0xEFBE4786, 0x0FC19DC6, 0x240CA1CC, 0x2DE92C6F, 0x4A7484AA, 0x5CB0A9DC, 0x76F988DA,
  0x983E5152, 0xA831C66D, 0xB00327C8, 0xBF597FC7, 0xC6E00BF3, 0xD5A79147, 0x06CA6351, 0x14292967,
  0x27B70A85, 0x2E1B2138, 0x4D2C6DFC, 0x53380D13, 0x650A7354, 0x766A0ABB, 0x81C2C92E, 0x92722C85,
  0xA2BFE8A1, 0xA81A664B, 0xC24B8B70, 0xC76C51A3, 0xD192E819, 0xD6990624, 0xF40E3585, 0x106AA070,
  0x19A4C116, 0x1E376C08, 0x2748774C, 0x34B0BCB5, 0x391C0CB3, 0x4ED8AA4A, 0x5B9CCA4F, 0x682E6FF3,
  0x748F82EE, 0x78A5636F, 0x84C87814, 0x8CC70208, 0x90BEFFFA, 0xA4506CEB, 0xBEF9A3F7, 0xC67178F2]"

definition H256 :: "u32 list" where
  "H256 = [0x6A09E667, 0xBB67AE85, 0x3C6EF372, 0xA54FF53A,
           0x510E527F, 0x9B05688C, 0x1F83D9AB, 0x5BE0CD19]"

definition ssig0 :: "u32 \<Rightarrow> u32" where
  "ssig0 x = rotr 7 x XOR rotr 18 x XOR drop_bit 3 x"

definition ssig1 :: "u32 \<Rightarrow> u32" where
  "ssig1 x = rotr 17 x XOR rotr 19 x XOR drop_bit 10 x"

definition bsig0 :: "u32 \<Rightarrow> u32" where
  "bsig0 x = rotr 2 x XOR rotr 13 x XOR rotr 22 x"

definition bsig1 :: "u32 \<Rightarrow> u32" where
  "bsig1 x = rotr 6 x XOR rotr 11 x XOR rotr 25 x"

definition ch :: "u32 \<Rightarrow> u32 \<Rightarrow> u32 \<Rightarrow> u32" where
  "ch x y z = (x AND y) XOR (NOT x AND z)"

definition maj :: "u32 \<Rightarrow> u32 \<Rightarrow> u32 \<Rightarrow> u32" where
  "maj x y z = (x AND y) XOR (x AND z) XOR (y AND z)"

text \<open>The message schedule, newest word first: \<open>ws ! 1\<close> is \<open>W(t-2)\<close>, \<open>ws ! 15\<close> is \<open>W(t-16)\<close>.\<close>

fun schedule :: "nat \<Rightarrow> u32 list \<Rightarrow> u32 list" where
  "schedule 0 ws = ws"
| "schedule (Suc n) ws =
     schedule n ((ssig1 (ws ! 1) + ws ! 6 + ssig0 (ws ! 14) + ws ! 15) # ws)"

type_synonym sha_state = "u32 \<times> u32 \<times> u32 \<times> u32 \<times> u32 \<times> u32 \<times> u32 \<times> u32"

fun round1 :: "sha_state \<Rightarrow> u32 \<times> u32 \<Rightarrow> sha_state" where
  "round1 (a, b, c, d, e, f, g, h) (k, w) =
     (let t1 = h + bsig1 e + ch e f g + k + w;
          t2 = bsig0 a + maj a b c
      in (t1 + t2, a, b, c, d + t1, e, f, g))"

definition rounds :: "u32 list \<Rightarrow> u32 list \<Rightarrow> u32 list \<Rightarrow> u32 list" where
  "rounds ks ws st =
    (case foldl round1 (st ! 0, st ! 1, st ! 2, st ! 3, st ! 4, st ! 5, st ! 6, st ! 7) (zip ks ws) of
      (a, b, c, d, e, f, g, h) \<Rightarrow> [a, b, c, d, e, f, g, h])"

definition be32 :: "string \<Rightarrow> u32" where
  "be32 bs = foldl (\<lambda>acc c. push_bit 8 acc OR of_char c) 0 bs"

fun words_of :: "nat \<Rightarrow> string \<Rightarrow> u32 list" where
  "words_of 0 bs = []"
| "words_of (Suc n) bs = be32 (take 4 bs) # words_of n (drop 4 bs)"

definition compress :: "u32 list \<Rightarrow> string \<Rightarrow> u32 list" where
  "compress st block =
     map2 (+) st (rounds K256 (rev (schedule 48 (rev (words_of 16 block)))) st)"

fun blocks :: "nat \<Rightarrow> u32 list \<Rightarrow> string \<Rightarrow> u32 list" where
  "blocks 0 st bs = st"
| "blocks (Suc n) st bs = blocks n (compress st (take 64 bs)) (drop 64 bs)"

fun be_bytes :: "nat \<Rightarrow> nat \<Rightarrow> string" where
  "be_bytes 0 n = []"
| "be_bytes (Suc k) n = be_bytes k (n div 256) @ [char_of (n mod 256)]"

definition pad :: "string \<Rightarrow> string" where
  "pad m = m @ [CHR 0x80] @ replicate ((55 + 64 - length m mod 64) mod 64) (CHR 0x00)
             @ be_bytes 8 (8 * length m)"

definition Sum256 :: "string \<Rightarrow> u32 list" where
  "Sum256 m = (let p = pad m in blocks (length p div 64) H256 p)"

definition hexdigit :: "nat \<Rightarrow> char" where
  "hexdigit n = ''0123456789abcdef'' ! n"

definition hex32 :: "u32 \<Rightarrow> string" where
  "hex32 w = map (\<lambda>i. hexdigit (unat (drop_bit (4 * i) w AND 15))) [7, 6, 5, 4, 3, 2, 1, 0]"

text \<open>\<open>fmt.Sprintf("%x", sha256.Sum256([]byte(s)))\<close>: 64 lower-case hex digits.\<close>

definition sha256_hex :: "string \<Rightarrow> string" where
  "sha256_hex m = concat (map hex32 (Sum256 m))"

subsection \<open>The \<open>%d\<close> verb\<close>

fun digits :: "nat \<Rightarrow> string" where
  "digits n = (if n < 10 then [hexdigit n] else digits (n div 10) @ [hexdigit (n mod 10)])"

declare digits.simps [simp del]

definition fmt_d :: "int \<Rightarrow> string" where
  "fmt_d i = (if i < 0 then CHR ''-'' # digits (nat (- i)) else digits (nat i))"

subsection \<open>float64 arithmetic\<close>

text \<open>
  A finite float64 is modelled by the rational number it denotes. Every IEEE 754 operation
  returns the exact result rounded to the nearest double, ties to even; \<open>float64\<close> is
  that rounding for the normal range (53-bit significand), which covers every value the
  functions below compute from machine integers. Division by zero is not a finite
  value and is treated where it can occur.
\<close>

function bit_length :: "int \<Rightarrow> nat" where
  "bit_length n = (if n \<le> 0 then 0 else Suc (bit_length (n div 2)))"
  by pat_completeness auto
termination
  by (relation "measure nat") auto

declare bit_length.simps [simp del]

definition pow2 :: "int \<Rightarrow> rat" where
  "pow2 e = (if 0 \<le> e then 2 ^ nat e else 1 / 2 ^ nat (- e))"

definition round_half_even :: "int \<Rightarrow> int \<Rightarrow> int" where
  "round_half_even n d =
     (let q = n div d; r = n mod d
      in if 2 * r < d then q else if d < 2 * r then q + 1 else if even q then q else q + 1)"

definition scale2 :: "int \<Rightarrow> int \<Rightarrow> int \<Rightarrow> int \<times> int" where
  "scale2 n d e = (if 0 \<le> e then (n, d * 2 ^ nat e) else (n * 2 ^ nat (- e), d))"

text \<open>
  \<open>round_pos n d\<close> rounds \<open>n / d\<close> for positive \<open>n\<close> and \<open>d\<close>: the exponent \<open>e\<close> is
  chosen with \<open>2^52 \<le> n / d / 2^e < 2^53\<close>, and the scaled quotient is rounded to an integer.
\<close>

definition round_pos :: "int \<Rightarrow> int \<Rightarrow> rat" where
  "round_pos n d =
     (let e0 = int (bit_length n) - int (bit_length d) - 53;
          (n0, d0) = scale2 n d e0;
          e = (if 2 ^ 53 \<le> n0 div d0 then e0 + 1 else e0);
          (n1, d1) = scale2 n d e
      in of_int (round_half_even n1 d1) * pow2 e)"

definition float64 :: "rat \<Rightarrow> rat" where
  "float64 x =
     (case quotient_of x of (n, d) \<Rightarrow>
        if n = 0 then 0 else if 0 < n then round_pos n d else - round_pos (- n) d)"

text \<open>\<open>int(f)\<close> truncates towards zero.\<close>

definition go_int :: "rat \<Rightarrow> int" where
  "go_int x = (if 0 \<le> x then \<lfloor>x\<rfloor> else - \<lfloor>- x\<rfloor>)"

section \<open>Import orchestrator: the status record\<close>

text \<open>Times are ticks of a clock that the caller supplies (\<open>time.Now()\<close>).\<close>

record ImportStatus =
  IsLoading :: bool
  CurrentStep :: string
  Progress :: int
  LastUpdated :: nat
  Error :: string
  TotalTitles :: int
  CurrentTitle :: int
  OverallStep :: int
  TotalSteps :: int
  AgenciesDone :: bool
  TitlesDone :: bool
  ReferencesDone :: bool
  ContentDone :: bool
  HistoricalDone :: bool

definition NewImportService :: "nat \<Rightarrow> ImportStatus" where
  "NewImportService now =
     \<lparr>IsLoading = False, CurrentStep = ''Ready'', Progress = 0, LastUpdated = now,
      Error = [], TotalTitles = 0, CurrentTitle = 0, OverallStep = 0, TotalSteps = 4,
      AgenciesDone = False, TitlesDone = False, ReferencesDone = False,
      ContentDone = False, HistoricalDone = False\<rparr>"

definition updateStatus :: "nat \<Rightarrow> string \<Rightarrow> int \<Rightarrow> string \<Rightarrow> ImportStatus \<Rightarrow> ImportStatus" where
  "updateStatus now step progress err s =
     s\<lparr>CurrentStep := step, Progress := progress, LastUpdated := now, Error := err\<rparr>"

definition setLoading :: "bool \<Rightarrow> ImportStatus \<Rightarrow> ImportStatus" where
  "setLoading loading s = s\<lparr>IsLoading := loading\<rparr>"

definition setOverallStep :: "nat \<Rightarrow> int \<Rightarrow> string \<Rightarrow> ImportStatus \<Rightarrow> ImportStatus" where
  "setOverallStep now step description s =
     s\<lparr>OverallStep := step, CurrentStep := description, IsLoading := True, LastUpdated := now\<rparr>"

text \<open>
  \<open>int(float64(completedSteps) / float64(TotalSteps) * 100)\<close>. With \<open>TotalSteps = 0\<close> the
  quotient is an infinity or a NaN, whose conversion to \<open>int\<close> Go leaves to the platform;
  amd64 yields the least int64. \<open>TotalSteps\<close> is set to 4 by \<open>NewImportService\<close> and
  never written again.
\<close>

definition stepProgress :: "int \<Rightarrow> int \<Rightarrow> int" where
  "stepProgress completedN totalN =
     (if totalN = 0 then - (2 ^ 63)
      else go_int (float64 (float64 (float64 (of_int completedN) / float64 (of_int totalN)) * 100)))"

definition setStepFlag :: "string \<Rightarrow> ImportStatus \<Rightarrow> ImportStatus" where
  "setStepFlag stepName s =
     (if stepName = ''agencies'' then s\<lparr>AgenciesDone := True\<rparr>
      else if stepName = ''titles'' then s\<lparr>TitlesDone := True\<rparr>
      else if stepName = ''references'' then s\<lparr>ReferencesDone := True\<rparr>
      else if stepName = ''content'' then s\<lparr>ContentDone := True\<rparr>
      else if stepName = ''historical'' then s\<lparr>HistoricalDone := True\<rparr>
      else s)"

definition completedSteps :: "ImportStatus \<Rightarrow> int" where
  "completedSteps s =
     (if AgenciesDone s then 1 else 0) + (if TitlesDone s then 1 else 0)
     + (if ReferencesDone s then 1 else 0) + (if ContentDone s then 1 else 0)
     + (if HistoricalDone s then 1 else 0)"

definition markStepComplete :: "nat \<Rightarrow> string \<Rightarrow> ImportStatus \<Rightarrow> ImportStatus" where
  "markStepComplete now stepName s =
     (let s1 = setStepFlag stepName s;
          n = completedSteps s1;
          s2 = s1\<lparr>Progress := stepProgress n (TotalSteps s1), LastUpdated := now\<rparr>
      in if n = TotalSteps s2
         then s2\<lparr>IsLoading := False, CurrentStep := ''All imports completed''\<rparr>
         else s2)"

text \<open>
  The status writes of a run in which every fetch succeeds: \<open>ImportAgencies\<close> marks
  ``agencies'' and ``references'' done; \<open>ImportTitles\<close> marks ``titles'', after the worker
  pool has drained ``content'', and after the snapshot service has returned ``historical''.
  The per-item \<open>updateStatus\<close> and \<open>incrementProgress\<close> calls in between write only
  the step text, the progress and the title counters and are left out.
\<close>

definition statusAfterAgencies :: "nat \<Rightarrow> ImportStatus \<Rightarrow> ImportStatus" where
  "statusAfterAgencies now s =
     markStepComplete now ''references''
       (markStepComplete now ''agencies''
         (updateStatus now ''Importing agencies'' 0 []
           (setOverallStep now 1 ''Importing agencies'' s)))"

definition statusAfterTitles :: "nat \<Rightarrow> ImportStatus \<Rightarrow> ImportStatus" where
  "statusAfterTitles now s =
     markStepComplete now ''titles''
       (updateStatus now ''Importing titles'' 0 []
         (setOverallStep now 2 ''Importing titles'' s))"

definition statusAfterContent :: "nat \<Rightarrow> ImportStatus \<Rightarrow> ImportStatus" where
  "statusAfterContent now s =
     markStepComplete now ''content''
       (updateStatus now ''Content import completed'' 100 []
         (updateStatus now ''Preparing content download'' 0 []
           (setOverallStep now 3 ''Importing content'' s)))"

definition statusAfterHistorical :: "nat \<Rightarrow> ImportStatus \<Rightarrow> ImportStatus" where
  "statusAfterHistorical now s =
     markStepComplete now ''historical''
       (updateStatus now ''Historical snapshots completed'' 100 []
         (updateStatus now ''Importing historical data from eCFR API'' 50 []
           (updateStatus now ''Creating historical snapshots'' 0 []
             (setOverallStep now 4 ''Creating historical snapshots'' s))))"

section \<open>Content downloader\<close>

text \<open>
  A strategy is its download operation, whose answer for a title number comes from the
  network (\<open>Inl\<close> the error message), and its name.
\<close>

record ContentDownloadStrategy =
  StrategyDownload :: "int \<Rightarrow> string + string"
  GetStrategyName :: string

definition NewBulkContentStrategy :: "(int \<Rightarrow> string + string) \<Rightarrow> ContentDownloadStrategy" where
  "NewBulkContentStrategy DownloadTitleXML =
     \<lparr>StrategyDownload = DownloadTitleXML, GetStrategyName = ''Bulk Repository''\<rparr>"

definition NewAPIContentStrategy :: "(int \<Rightarrow> string \<Rightarrow> string + string) \<Rightarrow> ContentDownloadStrategy" where
  "NewAPIContentStrategy FetchTitleContent =
     \<lparr>StrategyDownload = (\<lambda>titleNumber. FetchTitleContent titleNumber []),
      GetStrategyName = ''API''\<rparr>"

definition NewContentDownloader ::
  "(int \<Rightarrow> string + string) \<Rightarrow> (int \<Rightarrow> string \<Rightarrow> string + string) \<Rightarrow> ContentDownloadStrategy list" where
  "NewContentDownloader DownloadTitleXML FetchTitleContent =
     [NewBulkContentStrategy DownloadTitleXML, NewAPIContentStrategy FetchTitleContent]"

text \<open>
  The loop of \<open>DownloadTitleContent\<close>; the result is Go's pair of content and error, the
  error \<open>None\<close> for \<open>nil\<close>.
\<close>

fun tryStrategies :: "ContentDownloadStrategy list \<Rightarrow> int \<Rightarrow> string option \<Rightarrow> string \<times> string option" where
  "tryStrategies [] titleNumber lastErr = ([], lastErr)"
| "tryStrategies (strategy # rest) titleNumber lastErr =
     (case StrategyDownload strategy titleNumber of
        Inr content \<Rightarrow> (content, None)
      | Inl err \<Rightarrow> tryStrategies rest titleNumber (Some err))"

definition DownloadTitleContent :: "ContentDownloadStrategy list \<Rightarrow> int \<Rightarrow> string \<times> string option" where
  "DownloadTitleContent strategies titleNumber = tryStrategies strategies titleNumber None"

section \<open>Persisted state\<close>

text \<open>
  The tables of \<open>models.go\<close>, each a list of rows in storage order. Identifiers
  (\<open>uuid.UUID\<close>) are numbers and dates are day numbers. The generated keys of reference,
  content and snapshot rows, the created-at stamps, the short name of an agency and the
  three source dates of a title are read by none of the functions below and are left out.
\<close>

type_synonym uuid = nat
type_synonym date = nat

record Agency =
  Agency_ID :: uuid
  Agency_Name :: string
  Agency_Slug :: string
  Agency_ParentID :: "uuid option"

record Title =
  Title_ID :: uuid
  Title_Number :: int
  Title_Name :: string
  Title_Reserved :: bool

record AgencyCFRReference =
  Ref_AgencyID :: uuid
  Ref_TitleID :: uuid
  Ref_Chapter :: "string option"

record TitleContent =
  TC_TitleID :: uuid
  TC_ContentDate :: date
  TC_XMLContent :: string
  TC_WordCount :: "int option"
  TC_Checksum :: "string option"

record HistoricalSnapshot =
  HS_SnapshotDate :: date
  HS_AgencyID :: "uuid option"
  HS_TitleID :: "uuid option"
  HS_WordCount :: "int option"
  HS_Checksum :: "string option"

record AgencyChecksum =
  AC_AgencyID :: uuid
  AC_Checksum :: string
  AC_ContentHash :: string
  AC_UpdatedAt :: nat

record database =
  agencies :: "Agency list"
  titles :: "Title list"
  agency_cfr_references :: "AgencyCFRReference list"
  title_contents :: "TitleContent list"
  historical_snapshots :: "HistoricalSnapshot list"
  agency_checksums :: "AgencyChecksum list"

text \<open>
  Every call to the storage layer can fail. The calls are named, and each function takes
  a predicate telling which of its calls fail; the error it then returns names the call.
\<close>

datatype db_call =
    FetchTitleChecksums uuid
  | FirstAgencyChecksum uuid
  | SaveAgencyChecksum uuid
  | CreateAgencyChecksum uuid
  | FindAgencies
  | BatchTitleChecksums
  | FirstOrCreateTitleContent uuid date
  | MaxContentDate
  | SumWordCounts
  | AgencyWordCounts
  | FindTitleContents
  | FirstOrCreateSnapshot date "uuid option" "uuid option"
  | SelectSnapshots

datatype error = StorageError db_call | ScanNull | DownloadError string

text \<open>
  A query returns its rows in the order of its \<open>ORDER BY\<close> clause. Where the clause
  leaves the order of two rows open, and where there is none, the order is the server's
  and need not be the same from one execution to the next. Each function takes, beside
  \<open>fails\<close>, the \<open>plan\<close> of its queries: \<open>plan c i\<close> is the rank that the execution of
  the query \<open>c\<close> gives the \<open>i\<close>-th of the rows it produces, and \<open>serverOrder\<close> puts
  the rows in the order of their ranks. Every rank function gives a permutation of the
  rows and every permutation is given by one; \<open>ORDER BY key\<close> is then a stable sort by
  the key. \<open>heapOrder\<close> yields the rows as they are stored, \<open>backwardOrder\<close> from the
  last to the first, the order of a backward scan or of a descending index.
\<close>

definition serverOrder :: "(nat \<Rightarrow> int) \<Rightarrow> 'a list \<Rightarrow> 'a list" where
  "serverOrder rank rows = map snd (sort_key (\<lambda>p. rank (fst p)) (enumerate 0 rows))"

definition heapOrder :: "db_call \<Rightarrow> nat \<Rightarrow> int" where
  "heapOrder c i = int i"

definition backwardOrder :: "db_call \<Rightarrow> nat \<Rightarrow> int" where
  "backwardOrder c i = - int i"

section \<open>Checksum engine\<close>

text \<open>\<open>calculateChecksum\<close> of the import service: the document checksum.\<close>

definition calculateChecksum :: "string \<Rightarrow> string" where
  "calculateChecksum content = sha256_hex content"

text \<open>
  The query of \<open>calculateAndStoreAgencyChecksum\<close>. Its rows: \<open>title_contents\<close> joined
  with \<open>titles\<close> and \<open>agency_cfr_references\<close>, restricted to the agency and to rows
  with a checksum that is neither NULL nor empty; there is one for every content date of
  a title.
\<close>

definition titleChecksumRows :: "database \<Rightarrow> uuid \<Rightarrow> (int \<times> string) list" where
  "titleChecksumRows db agencyID =
     [(Title_Number t, c).
        tc \<leftarrow> title_contents db,
        t \<leftarrow> titles db, TC_TitleID tc = Title_ID t,
        acr \<leftarrow> agency_cfr_references db, Ref_TitleID acr = Title_ID t,
        Ref_AgencyID acr = agencyID,
        Some c \<leftarrow> [TC_Checksum tc], c \<noteq> []]"

text \<open>
  \<open>ORDER BY t.number ASC\<close> fixes the order of rows with different title numbers only;
  rows with the same number come in the order of the server.
\<close>

definition queryTitleChecksums ::
  "(db_call \<Rightarrow> nat \<Rightarrow> int) \<Rightarrow> database \<Rightarrow> uuid \<Rightarrow> (int \<times> string) list" where
  "queryTitleChecksums plan db agencyID =
     sort_key fst (serverOrder (plan (FetchTitleChecksums agencyID)) (titleChecksumRows db agencyID))"

text \<open>The loop over \<open>contentBuilder\<close>: one line \<open>TITLE_<number>:<checksum>\<close> per row.\<close>

definition titleLine :: "int \<times> string \<Rightarrow> string" where
  "titleLine tc = ''TITLE_'' @ fmt_d (fst tc) @ '':'' @ snd tc @ [CHR 0x0A]"

definition contentBuilder :: "(int \<times> string) list \<Rightarrow> string" where
  "contentBuilder titleChecksums = concat (map titleLine titleChecksums)"

text \<open>\<open>Where("agency_id = ?", agencyID).First(&existingChecksum)\<close> on a store that answers.\<close>

definition firstAgencyChecksum :: "database \<Rightarrow> uuid \<Rightarrow> AgencyChecksum option" where
  "firstAgencyChecksum db agencyID = find (\<lambda>r. AC_AgencyID r = agencyID) (agency_checksums db)"

text \<open>
  The result is Go's \<open>(string, error)\<close>: \<open>Inl\<close> the error, \<open>Inr\<close> the outcome with the
  state of the store. Every error is returned before anything is written. The code takes
  any error of \<open>First\<close>, not only a missing row, for absence; \<open>Create\<close> on a key that
  is present violates the primary key.
\<close>

definition calculateAndStoreAgencyChecksum ::
  "(db_call \<Rightarrow> bool) \<Rightarrow> (db_call \<Rightarrow> nat \<Rightarrow> int) \<Rightarrow> nat \<Rightarrow> database \<Rightarrow> uuid \<Rightarrow>
     error + (string \<times> database)" where
  "calculateAndStoreAgencyChecksum fails plan now db agencyID =
     (if fails (FetchTitleChecksums agencyID)
      then Inl (StorageError (FetchTitleChecksums agencyID))
      else
        let titleChecksums = queryTitleChecksums plan db agencyID in
        if titleChecksums = [] then Inr (''skipped'', db)
        else
          let contentHash = sha256_hex (contentBuilder titleChecksums);
              agencyChecksum = sha256_hex (contentBuilder titleChecksums)
          in case (if fails (FirstAgencyChecksum agencyID) then None
                   else firstAgencyChecksum db agencyID) of
               Some existingChecksum \<Rightarrow>
                 if AC_ContentHash existingChecksum = contentHash then Inr (''skipped'', db)
                 else if fails (SaveAgencyChecksum agencyID)
                 then Inl (StorageError (SaveAgencyChecksum agencyID))
                 else Inr (''updated'',
                   db\<lparr>agency_checksums :=
                        map (\<lambda>r. if AC_AgencyID r = agencyID
                                  then existingChecksum\<lparr>AC_Checksum := agencyChecksum,
                                         AC_ContentHash := contentHash, AC_UpdatedAt := now\<rparr>
                                  else r)
                            (agency_checksums db)\<rparr>)
             | None \<Rightarrow>
                 if fails (CreateAgencyChecksum agencyID) \<or> firstAgencyChecksum db agencyID \<noteq> None
                 then Inl (StorageError (CreateAgencyChecksum agencyID))
                 else Inr (''created'',
                   db\<lparr>agency_checksums := agency_checksums db @
                        [\<lparr>AC_AgencyID = agencyID, AC_Checksum = agencyChecksum,
                          AC_ContentHash = contentHash, AC_UpdatedAt = now\<rparr>]\<rparr>))"

text \<open>
  The loop of \<open>CalculateChecksumsHandler\<close> over the agencies: the outcome of every
  agency in turn, and the store after the last one. A failed agency is counted and the
  loop goes on.
\<close>

fun processAgencies ::
  "(db_call \<Rightarrow> bool) \<Rightarrow> (db_call \<Rightarrow> nat \<Rightarrow> int) \<Rightarrow> nat \<Rightarrow> database \<Rightarrow> uuid list \<Rightarrow>
     (error + string) list \<times> database" where
  "processAgencies fails plan now db [] = ([], db)"
| "processAgencies fails plan now db (agencyID # rest) =
     (case calculateAndStoreAgencyChecksum fails plan now db agencyID of
        Inl err \<Rightarrow>
          (case processAgencies fails plan now db rest of
             (results, db') \<Rightarrow> (Inl err # results, db'))
      | Inr (result, db1) \<Rightarrow>
          (case processAgencies fails plan now db1 rest of
             (results, db') \<Rightarrow> (Inr result # results, db')))"

record ChecksumStats =
  stats_total :: nat
  stats_created_updated :: nat
  stats_skipped :: nat
  stats_errors :: nat

definition checksumStats :: "(error + string) list \<Rightarrow> ChecksumStats" where
  "checksumStats results =
     \<lparr>stats_total = length results,
      stats_created_updated =
        length (filter (\<lambda>r. r = Inr ''created'' \<or> r = Inr ''updated'') results),
      stats_skipped = length (filter (\<lambda>r. r = Inr ''skipped'') results),
      stats_errors = length (filter (\<lambda>r. case r of Inl e \<Rightarrow> True | Inr s \<Rightarrow> False) results)\<rparr>"

text \<open>
  The handler answers with the HTTP status and, on success, the counts: 500 when the
  agencies cannot be read, 206 when an agency failed, 200 otherwise. \<open>Find(&agencies)\<close>
  has no order of its own.
\<close>

definition CalculateChecksumsHandler ::
  "(db_call \<Rightarrow> bool) \<Rightarrow> (db_call \<Rightarrow> nat \<Rightarrow> int) \<Rightarrow> nat \<Rightarrow> database \<Rightarrow>
     (nat \<times> ChecksumStats option) \<times> database" where
  "CalculateChecksumsHandler fails plan now db =
     (if fails FindAgencies then ((500, None), db)
      else case processAgencies fails plan now db
                  (map Agency_ID (serverOrder (plan FindAgencies) (agencies db))) of
        (results, db') \<Rightarrow>
          ((if 0 < stats_errors (checksumStats results) then 206 else 200,
            Some (checksumStats results)), db'))"

text \<open>
  \<open>calculateBatchAgencyChecksumsOptimized\<close>: one query for all the agencies, ordered by
  agency and title number, grouped by agency in that order; the rows of one agency and
  one title come in the order of the server. The result is the Go map.
\<close>

definition batchTitleChecksumRows :: "database \<Rightarrow> uuid list \<Rightarrow> (uuid \<times> int \<times> string) list" where
  "batchTitleChecksumRows db agencyIDs =
     [(Ref_AgencyID acr, Title_Number t, c).
        tc \<leftarrow> title_contents db,
        t \<leftarrow> titles db, TC_TitleID tc = Title_ID t,
        acr \<leftarrow> agency_cfr_references db, Title_ID t = Ref_TitleID acr,
        Ref_AgencyID acr \<in> set agencyIDs,
        Some c \<leftarrow> [TC_Checksum tc], c \<noteq> []]"

definition queryBatchTitleChecksums ::
  "(db_call \<Rightarrow> nat \<Rightarrow> int) \<Rightarrow> database \<Rightarrow> uuid list \<Rightarrow> (uuid \<times> int \<times> string) list" where
  "queryBatchTitleChecksums plan db agencyIDs =
     sort_key (\<lambda>r. (fst r, fst (snd r)))
       (serverOrder (plan BatchTitleChecksums) (batchTitleChecksumRows db agencyIDs))"

definition calculateBatchAgencyChecksumsOptimized ::
  "(db_call \<Rightarrow> bool) \<Rightarrow> (db_call \<Rightarrow> nat \<Rightarrow> int) \<Rightarrow> database \<Rightarrow> uuid list \<Rightarrow> (uuid \<rightharpoonup> string)" where
  "calculateBatchAgencyChecksumsOptimized fails plan db agencyIDs =
     (if agencyIDs = [] \<or> fails BatchTitleChecksums then Map.empty
      else (\<lambda>agencyID.
        let titleChecksums =
              map snd (filter (\<lambda>r. fst r = agencyID)
                (queryBatchTitleChecksums plan db agencyIDs))
        in if titleChecksums = [] then None
           else Some (sha256_hex (contentBuilder titleChecksums))))"

section \<open>Word count\<close>

subsection \<open>White space in the strings and regexp packages\<close>

text \<open>
  \<open>strings.TrimSpace\<close> and \<open>strings.Fields\<close> read the string as UTF-8 and take for
  white space the runes of \<open>unicode.IsSpace\<close>: six ASCII characters, U+0085, U+00A0 and
  the other code points of the Unicode property White_Space. The regular expression
  \<open>\s\<close> is the ASCII class \<open>[\t\n\f\r ]\<close> only. On bytes, a white-space rune is one
  of the byte sequences below. No sequence is a prefix of another, each starts with a
  byte that is not a UTF-8 continuation byte and goes on with continuation bytes only,
  so a sequence found at a position of the string is the rune that Go decodes there.
\<close>

definition asciiSpace :: "string" where
  "asciiSpace = [CHR 0x09, CHR 0x0A, CHR 0x0B, CHR 0x0C, CHR 0x0D, CHR 0x20]"

definition perlSpace :: "char \<Rightarrow> bool" where
  "perlSpace c \<longleftrightarrow> c \<in> set [CHR 0x09, CHR 0x0A, CHR 0x0C, CHR 0x0D, CHR 0x20]"

definition unicodeSpace :: "string list" where
  "unicodeSpace =
     [[CHR 0xC2, CHR 0x85], [CHR 0xC2, CHR 0xA0], [CHR 0xE1, CHR 0x9A, CHR 0x80],
      [CHR 0xE2, CHR 0x80, CHR 0x80], [CHR 0xE2, CHR 0x80, CHR 0x81],
      [CHR 0xE2, CHR 0x80, CHR 0x82], [CHR 0xE2, CHR 0x80, CHR 0x83],
      [CHR 0xE2, CHR 0x80, CHR 0x84], [CHR 0xE2, CHR 0x80, CHR 0x85],
      [CHR 0xE2, CHR 0x80, CHR 0x86], [CHR 0xE2, CHR 0x80, CHR 0x87],
      [CHR 0xE2, CHR 0x80, CHR 0x88], [CHR 0xE2, CHR 0x80, CHR 0x89],
      [CHR 0xE2, CHR 0x80, CHR 0x8A], [CHR 0xE2, CHR 0x80, CHR 0xA8],
      [CHR 0xE2, CHR 0x80, CHR 0xA9], [CHR 0xE2, CHR 0x80, CHR 0xAF],
      [CHR 0xE2, CHR 0x81, CHR 0x9F], [CHR 0xE3, CHR 0x80, CHR 0x80]]"

definition whiteSpace :: "string list" where
  "whiteSpace = map (\<lambda>c. [c]) asciiSpace @ unicodeSpace"

text \<open>The number of bytes of the white-space rune at the head of the string, 0 if none.\<close>

definition spaceWidth :: "string \<Rightarrow> nat" where
  "spaceWidth s = (case find (\<lambda>p. prefix p s) whiteSpace of Some p \<Rightarrow> length p | None \<Rightarrow> 0)"

text \<open>The same at the end of the string, as \<open>utf8.DecodeLastRuneInString\<close> reads it.\<close>

definition spaceWidthEnd :: "string \<Rightarrow> nat" where
  "spaceWidthEnd s = (case find (\<lambda>p. suffix p s) whiteSpace of Some p \<Rightarrow> length p | None \<Rightarrow> 0)"

function trimLeft :: "string \<Rightarrow> string" where
  "trimLeft s = (if spaceWidth s = 0 then s else trimLeft (drop (spaceWidth s) s))"
  by pat_completeness auto
termination
proof (relation "measure length")
  show "wf (measure length)" by simp
next
  fix s :: string
  assume "spaceWidth s \<noteq> 0"
  then have "s \<noteq> []"
    by (auto simp: spaceWidth_def whiteSpace_def asciiSpace_def unicodeSpace_def)
  with \<open>spaceWidth s \<noteq> 0\<close> show "(drop (spaceWidth s) s, s) \<in> measure length"
    by simp
qed

function trimRight :: "string \<Rightarrow> string" where
  "trimRight s =
     (if spaceWidthEnd s = 0 then s else trimRight (take (length s - spaceWidthEnd s) s))"
  by pat_completeness auto
termination
proof (relation "measure length")
  show "wf (measure length)" by simp
next
  fix s :: string
  assume "spaceWidthEnd s \<noteq> 0"
  then have "s \<noteq> []"
    by (auto simp: spaceWidthEnd_def whiteSpace_def asciiSpace_def unicodeSpace_def)
  with \<open>spaceWidthEnd s \<noteq> 0\<close>
  show "(take (length s - spaceWidthEnd s) s, s) \<in> measure length"
    by simp
qed

declare trimLeft.simps [simp del] trimRight.simps [simp del]

definition TrimSpace :: "string \<Rightarrow> string" where
  "TrimSpace s = trimRight (trimLeft s)"

text \<open>
  \<open>strings.Fields\<close>: the maximal runs of bytes that belong to no white-space rune.
  \<open>field\<close> holds the bytes of the run being read.
\<close>

function fieldsLoop :: "string \<Rightarrow> string \<Rightarrow> string list" where
  "fieldsLoop field [] = (if field = [] then [] else [field])"
| "fieldsLoop field (c # s) =
     (if spaceWidth (c # s) = 0 then fieldsLoop (field @ [c]) s
      else (if field = [] then [] else [field]) @ fieldsLoop [] (drop (spaceWidth (c # s)) (c # s)))"
  by pat_completeness auto
termination
  by (relation "measure (\<lambda>(field, s). length s)") auto

declare fieldsLoop.simps [simp del]

definition Fields :: "string \<Rightarrow> string list" where
  "Fields s = fieldsLoop [] s"

text \<open>
  \<open>regexp.MustCompile(`<[^>]*>`).ReplaceAllString(s, " ")\<close>. A match starts at the
  leftmost \<open><\<close> that has a \<open>>\<close> somewhere after it and ends at the first such \<open>>\<close>;
  the class \<open>[^>]\<close> takes every other rune, line breaks and \<open><\<close> included. Both
  delimiters are ASCII, so the bytes decide.
\<close>

function replaceTags :: "string \<Rightarrow> string" where
  "replaceTags [] = []"
| "replaceTags (c # s) =
     (if c = CHR ''<'' \<and> CHR ''>'' \<in> set s
      then CHR '' '' # replaceTags (tl (dropWhile (\<lambda>x. x \<noteq> CHR ''>'') s))
      else c # replaceTags s)"
  by pat_completeness auto
termination
  by (relation "measure length")
     (auto simp: less_Suc_eq_le intro: order_trans[OF diff_le_self length_dropWhile_le])

text \<open>\<open>regexp.MustCompile(`\s+`).ReplaceAllString(s, " ")\<close>.\<close>

function collapseSpace :: "string \<Rightarrow> string" where
  "collapseSpace [] = []"
| "collapseSpace (c # s) =
     (if perlSpace c then CHR '' '' # collapseSpace (dropWhile perlSpace s)
      else c # collapseSpace s)"
  by pat_completeness auto
termination
  by (relation "measure length") (auto simp: less_Suc_eq_le length_dropWhile_le)

subsection \<open>\<open>calculateWordCount\<close>\<close>

definition calculateWordCount :: "string \<Rightarrow> int" where
  "calculateWordCount xmlContent =
     (let text = replaceTags xmlContent;
          text = collapseSpace (TrimSpace text)
      in if text = [] then 0 else int (length (Fields text)))"

section \<open>Content import\<close>

text \<open>
  \<open>db.Where(cond).FirstOrCreate(&row)\<close> of the storage library: the first row that meets
  the condition is loaded into \<open>row\<close> and nothing is written; only when there is none,
  \<open>row\<close> is inserted. Without \<open>Assign\<close>, which the code never calls, a row that is
  found is not updated.
\<close>

definition firstOrCreate :: "('a \<Rightarrow> bool) \<Rightarrow> 'a \<Rightarrow> 'a list \<Rightarrow> 'a list" where
  "firstOrCreate cond row rows = (case find cond rows of Some found \<Rightarrow> rows | None \<Rightarrow> rows @ [row])"

text \<open>
  \<open>downloadAndProcessTitle\<close> returns nothing: a failed download and a failed store are
  logged and leave the table as it is. \<open>today\<close> is
  \<open>time.Now().UTC().Truncate(24 * time.Hour)\<close>.
\<close>

definition downloadAndProcessTitle ::
  "(db_call \<Rightarrow> bool) \<Rightarrow> ContentDownloadStrategy list \<Rightarrow> date \<Rightarrow> database \<Rightarrow> Title \<Rightarrow> database" where
  "downloadAndProcessTitle fails strategies today db title =
     (case DownloadTitleContent strategies (Title_Number title) of
        (content, Some err) \<Rightarrow> db
      | (content, None) \<Rightarrow>
          let wordCount = calculateWordCount content;
              checksum = calculateChecksum content;
              titleContent =
                \<lparr>TC_TitleID = Title_ID title, TC_ContentDate = today, TC_XMLContent = content,
                 TC_WordCount = Some wordCount, TC_Checksum = Some checksum\<rparr>
          in if fails (FirstOrCreateTitleContent (Title_ID title) today) then db
             else db\<lparr>title_contents :=
                    firstOrCreate
                      (\<lambda>r. TC_TitleID r = TC_TitleID titleContent \<and>
                           TC_ContentDate r = TC_ContentDate titleContent)
                      titleContent (title_contents db)\<rparr>)"

section \<open>Historical snapshot service\<close>

text \<open>
  The three conditions of the snapshot writes: the date, and for the agency and the
  title either a value or \<open>IS NULL\<close>.
\<close>

definition snapshotWhere :: "date \<Rightarrow> uuid option \<Rightarrow> uuid option \<Rightarrow> HistoricalSnapshot \<Rightarrow> bool" where
  "snapshotWhere snapshotDate agencyID titleID r \<longleftrightarrow>
     HS_SnapshotDate r = snapshotDate \<and> HS_AgencyID r = agencyID \<and> HS_TitleID r = titleID"

text \<open>
  The results are Go's error (\<open>None\<close> for \<open>nil\<close>) and the store, which keeps what was
  written before an error. Sums are over the rows whose word count is not NULL.
\<close>

definition captureOverallSnapshot ::
  "(db_call \<Rightarrow> bool) \<Rightarrow> database \<Rightarrow> date \<Rightarrow> error option \<times> database" where
  "captureOverallSnapshot fails db snapshotDate =
     (if fails SumWordCounts then (Some (StorageError SumWordCounts), db)
      else
        let totalWords = sum_list
              [w. tc \<leftarrow> title_contents db, TC_ContentDate tc = snapshotDate,
                  Some w \<leftarrow> [TC_WordCount tc]];
            snapshot = \<lparr>HS_SnapshotDate = snapshotDate, HS_AgencyID = None, HS_TitleID = None,
                        HS_WordCount = Some totalWords, HS_Checksum = None\<rparr>
        in if fails (FirstOrCreateSnapshot snapshotDate None None)
           then (Some (StorageError (FirstOrCreateSnapshot snapshotDate None None)), db)
           else (None, db\<lparr>historical_snapshots :=
                   firstOrCreate (snapshotWhere snapshotDate None None) snapshot
                     (historical_snapshots db)\<rparr>))"

text \<open>
  The word count of every agency: \<open>agencies\<close> left-joined with its references and with
  the content of the referenced titles on the date, grouped by agency.
\<close>

definition agencyWordCountRows :: "database \<Rightarrow> date \<Rightarrow> (uuid \<times> int) list" where
  "agencyWordCountRows db snapshotDate =
     map (\<lambda>agencyID.
            (agencyID, sum_list
               [w. a \<leftarrow> agencies db, Agency_ID a = agencyID,
                   acr \<leftarrow> agency_cfr_references db, Agency_ID a = Ref_AgencyID acr,
                   tc \<leftarrow> title_contents db, Ref_TitleID acr = TC_TitleID tc,
                   TC_ContentDate tc = snapshotDate,
                   Some w \<leftarrow> [TC_WordCount tc]]))
         (remdups (map Agency_ID (agencies db)))"

text \<open>The query has no \<open>ORDER BY\<close>: the groups come in the order of the server.\<close>

definition queryAgencyWordCounts ::
  "(db_call \<Rightarrow> nat \<Rightarrow> int) \<Rightarrow> database \<Rightarrow> date \<Rightarrow> (uuid \<times> int) list" where
  "queryAgencyWordCounts plan db snapshotDate =
     serverOrder (plan AgencyWordCounts) (agencyWordCountRows db snapshotDate)"

text \<open>The loops skip what has no words; a failed write is logged and the loop goes on.\<close>

fun agencySnapshotLoop ::
  "(db_call \<Rightarrow> bool) \<Rightarrow> date \<Rightarrow> HistoricalSnapshot list \<Rightarrow> (uuid \<times> int) list \<Rightarrow> HistoricalSnapshot list" where
  "agencySnapshotLoop fails snapshotDate rows [] = rows"
| "agencySnapshotLoop fails snapshotDate rows ((agencyID, wordCount) # rest) =
     (if wordCount = 0 then agencySnapshotLoop fails snapshotDate rows rest
      else if fails (FirstOrCreateSnapshot snapshotDate (Some agencyID) None)
      then agencySnapshotLoop fails snapshotDate rows rest
      else agencySnapshotLoop fails snapshotDate
             (firstOrCreate (snapshotWhere snapshotDate (Some agencyID) None)
                \<lparr>HS_SnapshotDate = snapshotDate, HS_AgencyID = Some agencyID, HS_TitleID = None,
                 HS_WordCount = Some wordCount, HS_Checksum = None\<rparr> rows)
             rest)"

definition captureAgencySnapshots ::
  "(db_call \<Rightarrow> bool) \<Rightarrow> (db_call \<Rightarrow> nat \<Rightarrow> int) \<Rightarrow> database \<Rightarrow> date \<Rightarrow>
     error option \<times> database" where
  "captureAgencySnapshots fails plan db snapshotDate =
     (if fails AgencyWordCounts then (Some (StorageError AgencyWordCounts), db)
      else (None, db\<lparr>historical_snapshots :=
              agencySnapshotLoop fails snapshotDate (historical_snapshots db)
                (queryAgencyWordCounts plan db snapshotDate)\<rparr>))"

fun titleSnapshotLoop ::
  "(db_call \<Rightarrow> bool) \<Rightarrow> date \<Rightarrow> HistoricalSnapshot list \<Rightarrow> TitleContent list \<Rightarrow> HistoricalSnapshot list" where
  "titleSnapshotLoop fails snapshotDate rows [] = rows"
| "titleSnapshotLoop fails snapshotDate rows (tc # rest) =
     (if TC_WordCount tc = None \<or> TC_WordCount tc = Some 0
      then titleSnapshotLoop fails snapshotDate rows rest
      else if fails (FirstOrCreateSnapshot snapshotDate None (Some (TC_TitleID tc)))
      then titleSnapshotLoop fails snapshotDate rows rest
      else titleSnapshotLoop fails snapshotDate
             (firstOrCreate (snapshotWhere snapshotDate None (Some (TC_TitleID tc)))
                \<lparr>HS_SnapshotDate = snapshotDate, HS_AgencyID = None,
                 HS_TitleID = Some (TC_TitleID tc), HS_WordCount = TC_WordCount tc,
                 HS_Checksum = TC_Checksum tc\<rparr> rows)
             rest)"

text \<open>\<open>Where("content_date = ?", snapshotDate).Find(&titleContents)\<close> has no order of its own.\<close>

definition captureTitleSnapshots ::
  "(db_call \<Rightarrow> bool) \<Rightarrow> (db_call \<Rightarrow> nat \<Rightarrow> int) \<Rightarrow> database \<Rightarrow> date \<Rightarrow>
     error option \<times> database" where
  "captureTitleSnapshots fails plan db snapshotDate =
     (if fails FindTitleContents then (Some (StorageError FindTitleContents), db)
      else (None, db\<lparr>historical_snapshots :=
              titleSnapshotLoop fails snapshotDate (historical_snapshots db)
                (serverOrder (plan FindTitleContents)
                   (filter (\<lambda>tc. TC_ContentDate tc = snapshotDate) (title_contents db)))\<rparr>))"

text \<open>\<open>SELECT MAX(content_date)\<close> on a table that has a row; dates are not negative.\<close>

definition latestContentDate :: "database \<Rightarrow> date" where
  "latestContentDate db = foldl max 0 (map TC_ContentDate (title_contents db))"

text \<open>
  \<open>CaptureSnapshot\<close>. \<open>MAX(content_date)\<close> of an empty table is NULL, which cannot be
  scanned into a \<open>time.Time\<close>: the scan fails and nothing is captured.
\<close>

definition CaptureSnapshot ::
  "(db_call \<Rightarrow> bool) \<Rightarrow> (db_call \<Rightarrow> nat \<Rightarrow> int) \<Rightarrow> database \<Rightarrow> error option \<times> database" where
  "CaptureSnapshot fails plan db =
     (if fails MaxContentDate then (Some (StorageError MaxContentDate), db)
      else if title_contents db = [] then (Some ScanNull, db)
      else
        let snapshotDate = latestContentDate db in
        case captureOverallSnapshot fails db snapshotDate of
          (Some err, db1) \<Rightarrow> (Some err, db1)
        | (None, db1) \<Rightarrow>
            (case captureAgencySnapshots fails plan db1 snapshotDate of
               (Some err, db2) \<Rightarrow> (Some err, db2)
             | (None, db2) \<Rightarrow>
                 (case captureTitleSnapshots fails plan db2 snapshotDate of
                    (Some err, db3) \<Rightarrow> (Some err, db3)
                  | (None, db3) \<Rightarrow> (None, db3))))"

section \<open>Trend series\<close>

record HistoricalPoint =
  HP_Date :: date
  HP_WordCount :: int
  HP_ChangePercent :: rat

text \<open>The difference of two word counts is that of Go's 64-bit \<open>int\<close>: it wraps.\<close>

definition int64 :: "int \<Rightarrow> int" where
  "int64 n = (n + 2 ^ 63) mod 2 ^ 64 - 2 ^ 63"

text \<open>
  \<open>float64(cur - prev) / float64(prev) * 100\<close>, for \<open>prev > 0\<close>.
\<close>

definition changePercent :: "int \<Rightarrow> int \<Rightarrow> rat" where
  "changePercent prev cur =
     float64 (float64 (float64 (of_int (int64 (cur - prev))) / float64 (of_int prev)) * 100)"

text \<open>The loop over the snapshots read, by index as in the code.\<close>

definition historyPoints :: "(date \<times> int) list \<Rightarrow> HistoricalPoint list" where
  "historyPoints snapshots =
     map (\<lambda>i. \<lparr>HP_Date = fst (snapshots ! i), HP_WordCount = snd (snapshots ! i),
               HP_ChangePercent =
                 (if 0 < i \<and> 0 < snd (snapshots ! (i - 1))
                  then changePercent (snd (snapshots ! (i - 1))) (snd (snapshots ! i))
                  else 0)\<rparr>)
         [0..<length snapshots]"

text \<open>A NULL word count is scanned into the \<open>int\<close> of the row as 0.\<close>

definition scanWordCount :: "HistoricalSnapshot \<Rightarrow> int" where
  "scanWordCount r = (case HS_WordCount r of None \<Rightarrow> 0 | Some w \<Rightarrow> w)"

text \<open>
  \<open>ORDER BY snapshot_date ASC\<close>: snapshots of one date, if there are several, come in
  the order of the server.
\<close>

definition getOverallHistory ::
  "(db_call \<Rightarrow> bool) \<Rightarrow> (db_call \<Rightarrow> nat \<Rightarrow> int) \<Rightarrow> database \<Rightarrow> date \<Rightarrow> date \<Rightarrow>
     error + HistoricalPoint list" where
  "getOverallHistory fails plan db startDate endDate =
     (if fails SelectSnapshots then Inl (StorageError SelectSnapshots)
      else Inr (historyPoints
        (sort_key fst
          (serverOrder (plan SelectSnapshots)
            [(HS_SnapshotDate r, scanWordCount r).
               r \<leftarrow> historical_snapshots db,
               startDate \<le> HS_SnapshotDate r \<and> HS_SnapshotDate r \<le> endDate,
               HS_AgencyID r = None \<and> HS_TitleID r = None]))))"

definition getAgencyHistory ::
  "(db_call \<Rightarrow> bool) \<Rightarrow> (db_call \<Rightarrow> nat \<Rightarrow> int) \<Rightarrow> database \<Rightarrow> string \<Rightarrow> date \<Rightarrow> date \<Rightarrow>
     error + HistoricalPoint list" where
  "getAgencyHistory fails plan db agencySlug startDate endDate =
     (if fails SelectSnapshots then Inl (StorageError SelectSnapshots)
      else Inr (historyPoints
        (sort_key fst
          (serverOrder (plan SelectSnapshots)
            [(HS_SnapshotDate r, scanWordCount r).
               r \<leftarrow> historical_snapshots db,
               a \<leftarrow> agencies db, HS_AgencyID r = Some (Agency_ID a),
               Agency_Slug a = agencySlug,
               startDate \<le> HS_SnapshotDate r \<and> HS_SnapshotDate r \<le> endDate,
               HS_TitleID r = None]))))"

section \<open>Definitions used to state the properties\<close>

text \<open>The content hash that a recalculation computes for an agency under a plan.\<close>

definition freshContentHash :: "(db_call \<Rightarrow> nat \<Rightarrow> int) \<Rightarrow> database \<Rightarrow> uuid \<Rightarrow> string" where
  "freshContentHash plan db agencyID =
     sha256_hex (contentBuilder (queryTitleChecksums plan db agencyID))"

text \<open>
  An agency is settled under a plan when a recalculation under it has nothing to write
  for the agency: it has no title with a recorded checksum, or its stored content hash is
  the fresh one.
\<close>

definition settled :: "(db_call \<Rightarrow> nat \<Rightarrow> int) \<Rightarrow> database \<Rightarrow> uuid \<Rightarrow> bool" where
  "settled plan db agencyID \<longleftrightarrow>
     queryTitleChecksums plan db agencyID = [] \<or>
     map_option AC_ContentHash (firstAgencyChecksum db agencyID) =
       Some (freshContentHash plan db agencyID)"

text \<open>
  A store with one agency that references title 10, and two downloads of that title on
  consecutive days; each checksum is the SHA-256 of the content beside it.
\<close>

definition exampleDB :: "TitleContent list \<Rightarrow> database" where
  "exampleDB contents =
     \<lparr>agencies = [\<lparr>Agency_ID = 7, Agency_Name = ''Department of Examples'',
                   Agency_Slug = ''dept-examples'', Agency_ParentID = None\<rparr>],
      titles = [\<lparr>Title_ID = 1, Title_Number = 10, Title_Name = ''Energy'',
                 Title_Reserved = False\<rparr>],
      agency_cfr_references = [\<lparr>Ref_AgencyID = 7, Ref_TitleID = 1, Ref_Chapter = Some ''I''\<rparr>],
      title_contents = contents, historical_snapshots = [], agency_checksums = []\<rparr>"

definition contentDay1 :: TitleContent where
  "contentDay1 =
     \<lparr>TC_TitleID = 1, TC_ContentDate = 1, TC_XMLContent = ''abc'', TC_WordCount = Some 1,
      TC_Checksum = Some ''ba7816bf8f01cfea414140de5dae2223b00361a396177a9cb410ff61f20015ad''\<rparr>"

definition contentDay2 :: TitleContent where
  "contentDay2 =
     \<lparr>TC_TitleID = 1, TC_ContentDate = 2,
      TC_XMLContent = ''abcdbcdecdefdefgefghfghighijhijkijkljklmklmnlmnomnopnopq'',
      TC_WordCount = Some 1,
      TC_Checksum = Some ''248d6a61d20638b8e5c026930c3e6039a33ce45964ff2167f6ecedd419db06c1''\<rparr>"

text \<open>A UTF-8 continuation byte.\<close>

definition contByte :: "char \<Rightarrow> bool" where
  "contByte c \<longleftrightarrow> 128 \<le> (of_char c :: nat) \<and> (of_char c :: nat) < 192"

text \<open>The field that \<open>fieldsLoop\<close> emits when white space ends the run it holds.\<close>

definition fieldOf :: "string \<Rightarrow> string list" where
  "fieldOf field = (if field = [] then [] else [field])"

text \<open>A snapshot row with the key is in the table.\<close>

definition hasSnapshot :: "HistoricalSnapshot list \<Rightarrow> date \<Rightarrow> uuid option \<Rightarrow> uuid option \<Rightarrow> bool" where
  "hasSnapshot rows d a t \<longleftrightarrow> (\<exists>r \<in> set rows. snapshotWhere d a t r)"

text \<open>A content row that the title loop does not skip.\<close>

definition counted :: "TitleContent \<Rightarrow> bool" where
  "counted tc \<longleftrightarrow> TC_WordCount tc \<noteq> None \<and> TC_WordCount tc \<noteq> Some 0"

text \<open>Every snapshot that \<open>CaptureSnapshot\<close> would write for the latest content date is there.\<close>

definition captured :: "database \<Rightarrow> bool" where
  "captured db \<longleftrightarrow>
     hasSnapshot (historical_snapshots db) (latestContentDate db) None None \<and>
     (\<forall>(agencyID, wordCount) \<in> set (agencyWordCountRows db (latestContentDate db)).
        wordCount \<noteq> 0 \<longrightarrow>
        hasSnapshot (historical_snapshots db) (latestContentDate db) (Some agencyID) None) \<and>
     (\<forall>tc \<in> set (title_contents db). TC_ContentDate tc = latestContentDate db \<and> counted tc \<longrightarrow>
        hasSnapshot (historical_snapshots db) (latestContentDate db) None (Some (TC_TitleID tc)))"

text \<open>Three overall snapshots on consecutive days, stored out of order, and one of the agency.\<close>

definition trendDB :: database where
  "trendDB =
     \<lparr>agencies = [\<lparr>Agency_ID = 7, Agency_Name = ''Department of Examples'',
                   Agency_Slug = ''dept-examples'', Agency_ParentID = None\<rparr>],
      titles = [], agency_cfr_references = [], title_contents = [],
      historical_snapshots =
        [\<lparr>HS_SnapshotDate = 3, HS_AgencyID = None, HS_TitleID = None,
          HS_WordCount = Some 120, HS_Checksum = None\<rparr>,
         \<lparr>HS_SnapshotDate = 1, HS_AgencyID = None, HS_TitleID = None,
          HS_WordCount = Some 100, HS_Checksum = None\<rparr>,
         \<lparr>HS_SnapshotDate = 2, HS_AgencyID = Some 7, HS_TitleID = None,
          HS_WordCount = Some 40, HS_Checksum = None\<rparr>,
         \<lparr>HS_SnapshotDate = 2, HS_AgencyID = None, HS_TitleID = None,
          HS_WordCount = Some 150, HS_Checksum = None\<rparr>],
      agency_checksums = []\<rparr>"

text \<open>The title of the example store.\<close>

definition title10 :: Title where
  "title10 = \<lparr>Title_ID = 1, Title_Number = 10, Title_Name = ''Energy'', Title_Reserved = False\<rparr>"

text \<open>
  The example store after a first recalculation under \<open>heapOrder\<close> at time 0: the
  checksum row of the agency holds the hash of the two lines of title 10 in the order
  day 1, day 2.
\<close>

definition afterFirstRun :: database where
  "afterFirstRun =
     (exampleDB [contentDay1, contentDay2])\<lparr>agency_checksums :=
        [\<lparr>AC_AgencyID = 7,
          AC_Checksum = ''ccd8ec54acff2b9a5b00f525cf5a4f1dda41c7baae770563e9f51bcb897588df'',
          AC_ContentHash = ''ccd8ec54acff2b9a5b00f525cf5a4f1dda41c7baae770563e9f51bcb897588df'',
          AC_UpdatedAt = 0\<rparr>]\<rparr>"

section \<open>The library models on known values\<close>

text \<open>The digest of ``abc'' is the test vector of FIPS 180-4.\<close>

lemma sha256_abc:
  "sha256_hex ''abc'' = ''ba7816bf8f01cfea414140de5dae2223b00361a396177a9cb410ff61f20015ad''"
  by code_simp

section \<open>The order of the server\<close>

text \<open>
  \<open>serverOrder\<close> gives a permutation of the rows under every rank function, the rows as
  they are under \<open>heapOrder\<close>, and every permutation under some rank function.
\<close>

lemma mset_serverOrder [simp]: "mset (serverOrder rank rows) = mset rows"
proof -
  have "image_mset snd (mset (enumerate 0 rows)) = mset (map snd (enumerate 0 rows))"
    by (simp only: mset_map)
  then show ?thesis by (simp add: serverOrder_def)
qed

lemma set_serverOrder [simp]: "set (serverOrder rank rows) = set rows"
  using mset_serverOrder[of rank rows] by (metis set_mset_mset)

lemma length_serverOrder [simp]: "length (serverOrder rank rows) = length rows"
  by (simp add: serverOrder_def)

lemma serverOrder_Nil_iff [simp]: "serverOrder rank rows = [] \<longleftrightarrow> rows = []"
  using length_serverOrder[of rank rows] by (metis length_0_conv)

lemma serverOrder_Nil [simp]: "serverOrder rank [] = []"
  by (simp add: serverOrder_def)

lemma serverOrder_heap [simp]: "serverOrder (heapOrder c) rows = rows"
proof -
  have "sorted (map (\<lambda>p. heapOrder c (fst p)) (enumerate 0 rows))"
    by (simp add: heapOrder_def sorted_iff_nth_mono nth_enumerate_eq)
  then have "sort_key (\<lambda>p. heapOrder c (fst p)) (enumerate 0 rows) = enumerate 0 rows"
    by (rule sort_key_id_if_sorted)
  then show ?thesis by (simp add: serverOrder_def)
qed

lemma serverOrder_complete:
  assumes "mset ys = mset xs"
  shows "\<exists>rank. serverOrder rank xs = ys"
proof -
  have len: "length xs = length [0..<length xs]" by simp
  from ex_mset_zip_left[OF len assms]
  obtain js where js: "length js = length ys" "mset (zip ys js) = mset (zip xs [0..<length xs])"
    by blast
  have n: "length ys = length xs" using assms by (metis size_mset)
  have "mset (map snd (zip ys js)) = mset (map snd (zip xs [0..<length xs]))"
    using js(2) by (metis mset_map)
  then have mjs: "mset js = mset [0..<length xs]"
    using js(1) by simp
  then have djs: "distinct js"
    by (metis distinct_upt mset_eq_imp_distinct_iff)
  have sjs: "set js = {..<length xs}"
    using mjs by (metis atLeast_upt mset_eq_setD)
  have el: "ys ! j = xs ! (js ! j)" if "j < length ys" for j
  proof -
    have "(ys ! j, js ! j) \<in> set (zip ys js)"
      using that js(1) by (auto simp: set_zip)
    then have "(ys ! j, js ! j) \<in> set (zip xs [0..<length xs])"
      using js(2) by (metis mset_eq_setD)
    then show ?thesis by (auto simp: set_zip)
  qed
  define rank where "rank i = int (THE j. j < length js \<and> js ! j = i)" for i
  have rk: "rank (js ! j) = int j" if "j < length js" for j
    unfolding rank_def using that djs
    by (auto intro!: the_equality simp: nth_eq_iff_index_eq)
  let ?Z = "map (\<lambda>j. (j, xs ! j)) js"
  have e: "enumerate 0 xs = map (\<lambda>j. (j, xs ! j)) [0..<length xs]"
    by (rule nth_equalityI) (simp_all add: nth_enumerate_eq)
  have m: "mset (enumerate 0 xs) = mset ?Z"
    unfolding e using mjs by (metis mset_map)
  have inj: "inj_on (\<lambda>p. rank (fst p)) (set (enumerate 0 xs))"
  proof (rule inj_onI)
    fix p q assume p: "p \<in> set (enumerate 0 xs)" and q: "q \<in> set (enumerate 0 xs)"
      and eq: "rank (fst p) = rank (fst q)"
    from p q have "fst p \<in> set js" "fst q \<in> set js" "snd p = xs ! fst p" "snd q = xs ! fst q"
      unfolding e sjs by auto
    then obtain a b where ab: "a < length js" "js ! a = fst p" "b < length js" "js ! b = fst q"
      by (metis in_set_conv_nth)
    with eq rk have "a = b" by (metis of_nat_eq_iff)
    with ab have "fst p = fst q" by simp
    with \<open>snd p = xs ! fst p\<close> \<open>snd q = xs ! fst q\<close> show "p = q"
      by (simp add: prod_eq_iff)
  qed
  have "map (\<lambda>p. rank (fst p)) ?Z = map int [0..<length js]"
    by (rule nth_equalityI) (simp_all add: rk)
  then have srt: "sorted (map (\<lambda>p. rank (fst p)) ?Z)"
    by (simp add: sorted_iff_nth_mono)
  have "sort_key (\<lambda>p. rank (fst p)) (enumerate 0 xs) = ?Z"
    using m inj srt by (rule sort_key_inj_key_eq)
  then have "serverOrder rank xs = map (\<lambda>j. xs ! j) js"
    by (simp add: serverOrder_def comp_def)
  also have "\<dots> = ys"
    by (rule nth_equalityI) (simp_all add: js(1) el)
  finally show ?thesis by blast
qed

section \<open>Checksum engine: change detection\<close>

lemma rows_tables:
  assumes "title_contents db' = title_contents db" "titles db' = titles db"
    "agency_cfr_references db' = agency_cfr_references db"
  shows "titleChecksumRows db' a = titleChecksumRows db a"
  unfolding titleChecksumRows_def assms ..

lemma query_tables:
  "title_contents db' = title_contents db \<Longrightarrow> titles db' = titles db \<Longrightarrow>
   agency_cfr_references db' = agency_cfr_references db \<Longrightarrow>
   queryTitleChecksums plan db' a = queryTitleChecksums plan db a"
  using rows_tables[of db' db a] by (simp add: queryTitleChecksums_def)

lemma query_checksums_upd [simp]:
  "queryTitleChecksums plan (db\<lparr>agency_checksums := x\<rparr>) a = queryTitleChecksums plan db a"
  by (rule query_tables) simp_all

lemma fresh_upd [simp]:
  "freshContentHash plan (db\<lparr>agency_checksums := x\<rparr>) a = freshContentHash plan db a"
  by (simp add: freshContentHash_def)

lemma find_map_other:
  "(\<And>r. P (f r) = P r) \<Longrightarrow> (\<And>r. P r \<Longrightarrow> f r = r) \<Longrightarrow> find P (map f xs) = find P xs"
  by (induction xs) auto

lemma find_map_same:
  "find P xs = Some y \<Longrightarrow> (\<And>r. P r \<Longrightarrow> f r = z) \<Longrightarrow> P z \<Longrightarrow> (\<And>r. \<not> P r \<Longrightarrow> \<not> P (f r))
     \<Longrightarrow> find P (map f xs) = Some z"
  by (induction xs) (auto split: if_splits)

lemma find_snoc:
  "find P (xs @ [z]) = (case find P xs of Some y \<Rightarrow> Some y | None \<Rightarrow> if P z then Some z else None)"
  by (induction xs) auto

lemma first_key: "firstAgencyChecksum db a = Some r \<Longrightarrow> AC_AgencyID r = a"
  by (auto simp: firstAgencyChecksum_def find_Some_iff)

lemma calc_cases:
  assumes "calculateAndStoreAgencyChecksum fails plan now db b = Inr (r, db')"
  obtains (skip) "r = ''skipped''" "db' = db"
  | (upd) ex where "r = ''updated''" "firstAgencyChecksum db b = Some ex"
      "AC_ContentHash ex \<noteq> freshContentHash plan db b" "queryTitleChecksums plan db b \<noteq> []"
      "db' = db\<lparr>agency_checksums :=
          map (\<lambda>r. if AC_AgencyID r = b
                    then ex\<lparr>AC_Checksum := freshContentHash plan db b,
                            AC_ContentHash := freshContentHash plan db b, AC_UpdatedAt := now\<rparr>
                    else r) (agency_checksums db)\<rparr>"
  | (cre) "r = ''created''" "firstAgencyChecksum db b = None" "queryTitleChecksums plan db b \<noteq> []"
      "db' = db\<lparr>agency_checksums := agency_checksums db @
          [\<lparr>AC_AgencyID = b, AC_Checksum = freshContentHash plan db b,
            AC_ContentHash = freshContentHash plan db b, AC_UpdatedAt = now\<rparr>]\<rparr>"
proof -
  have nf: "\<not> fails (FetchTitleChecksums b)"
    using assms by (auto simp: calculateAndStoreAgencyChecksum_def)
  show ?thesis
  proof (cases "queryTitleChecksums plan db b = []")
    case True
    with assms nf have "r = ''skipped''" "db' = db"
      by (simp_all add: calculateAndStoreAgencyChecksum_def)
    then show ?thesis by (rule skip)
  next
    case False
    note ne = False
    show ?thesis
    proof (cases "if fails (FirstAgencyChecksum b) then None else firstAgencyChecksum db b")
      case None
      with assms nf ne have c: "\<not> (fails (CreateAgencyChecksum b) \<or> firstAgencyChecksum db b \<noteq> None)"
        by (auto simp: calculateAndStoreAgencyChecksum_def Let_def split: if_splits)
      with assms nf ne None have "r = ''created''"
        "db' = db\<lparr>agency_checksums := agency_checksums db @
          [\<lparr>AC_AgencyID = b, AC_Checksum = freshContentHash plan db b,
            AC_ContentHash = freshContentHash plan db b, AC_UpdatedAt = now\<rparr>]\<rparr>"
        by (simp_all add: calculateAndStoreAgencyChecksum_def Let_def freshContentHash_def)
      with c ne show ?thesis by (intro cre) simp_all
    next
      case (Some ex)
      then have fx: "firstAgencyChecksum db b = Some ex"
        by (simp split: if_splits)
      show ?thesis
      proof (cases "AC_ContentHash ex = freshContentHash plan db b")
        case True
        with assms nf ne Some have "r = ''skipped''" "db' = db"
          by (simp_all add: calculateAndStoreAgencyChecksum_def Let_def freshContentHash_def)
        then show ?thesis by (rule skip)
      next
        case False
        with assms nf ne Some have s: "\<not> fails (SaveAgencyChecksum b)"
          by (auto simp: calculateAndStoreAgencyChecksum_def Let_def freshContentHash_def)
        with assms nf ne Some False have "r = ''updated''"
          "db' = db\<lparr>agency_checksums :=
            map (\<lambda>r. if AC_AgencyID r = b
                    then ex\<lparr>AC_Checksum := freshContentHash plan db b,
                            AC_ContentHash := freshContentHash plan db b, AC_UpdatedAt := now\<rparr>
                    else r) (agency_checksums db)\<rparr>"
          by (simp_all add: calculateAndStoreAgencyChecksum_def Let_def freshContentHash_def
              cong: if_cong)
        with fx False ne show ?thesis by (intro upd) simp_all
      qed
    qed
  qed
qed

lemma calc_preserves_settled:
  assumes "settled plan db a" "calculateAndStoreAgencyChecksum fails plan now db b = Inr (r, db')"
  shows "settled plan db' a"
  using assms(2)
proof (cases rule: calc_cases)
  case skip
  with assms(1) show ?thesis by simp
next
  case (upd ex)
  have kb: "AC_AgencyID ex = b" using upd(2) by (rule first_key)
  show ?thesis
  proof (cases "a = b")
    case True
    have "firstAgencyChecksum db' a =
        Some (ex\<lparr>AC_Checksum := freshContentHash plan db b,
                 AC_ContentHash := freshContentHash plan db b, AC_UpdatedAt := now\<rparr>)"
      using upd(2) kb True unfolding firstAgencyChecksum_def upd(5)
      by (auto intro!: find_map_same)
    then show ?thesis using True upd(5) by (simp add: settled_def)
  next
    case False
    have "firstAgencyChecksum db' a = firstAgencyChecksum db a"
      using kb False unfolding firstAgencyChecksum_def upd(5)
      by (auto intro!: find_map_other)
    then show ?thesis using assms(1) upd(5) by (simp add: settled_def)
  qed
next
  case cre
  show ?thesis
  proof (cases "a = b")
    case True
    then show ?thesis using cre
      by (simp add: settled_def firstAgencyChecksum_def find_snoc)
  next
    case False
    then have "firstAgencyChecksum db' a = firstAgencyChecksum db a"
      unfolding firstAgencyChecksum_def cre(4)
      by (simp add: find_snoc split: option.splits)
    then show ?thesis using assms(1) cre(4) by (simp add: settled_def)
  qed
qed

lemma calc_written_settled:
  assumes "calculateAndStoreAgencyChecksum fails plan now db a = Inr (r, db')"
    and "r = ''created'' \<or> r = ''updated''"
  shows "settled plan db' a"
  using assms(1)
proof (cases rule: calc_cases)
  case skip
  with assms(2) show ?thesis by simp
next
  case (upd ex)
  have kb: "AC_AgencyID ex = a" using upd(2) by (rule first_key)
  have "firstAgencyChecksum db' a =
        Some (ex\<lparr>AC_Checksum := freshContentHash plan db a,
                 AC_ContentHash := freshContentHash plan db a, AC_UpdatedAt := now\<rparr>)"
    using upd(2) kb unfolding firstAgencyChecksum_def upd(5)
    by (auto intro!: find_map_same)
  then show ?thesis using upd(5) by (simp add: settled_def)
next
  case cre
  then show ?thesis
    by (simp add: settled_def firstAgencyChecksum_def find_snoc)
qed

lemma calc_settled_skips:
  assumes "settled plan db a" "\<not> fails (FetchTitleChecksums a)" "\<not> fails (FirstAgencyChecksum a)"
  shows "calculateAndStoreAgencyChecksum fails plan now db a = Inr (''skipped'', db)"
  using assms
  by (auto simp: calculateAndStoreAgencyChecksum_def settled_def freshContentHash_def Let_def
      split: option.splits)

lemma calc_total_nofail:
  assumes "\<forall>c. \<not> fails c"
  shows "\<exists>r db'. calculateAndStoreAgencyChecksum fails plan now db a = Inr (r, db')"
proof (cases "firstAgencyChecksum db a")
  case None
  with assms show ?thesis
    by (simp add: calculateAndStoreAgencyChecksum_def Let_def)
next
  case (Some ex)
  with assms show ?thesis
    by (simp add: calculateAndStoreAgencyChecksum_def Let_def)
qed

lemma calc_skipped_settled:
  assumes "calculateAndStoreAgencyChecksum fails plan now db a = Inr (''skipped'', db')"
    and "\<not> fails (FirstAgencyChecksum a)"
  shows "settled plan db' a"
proof (cases "queryTitleChecksums plan db a = []")
  case True
  with assms(1) show ?thesis
    by (simp add: calculateAndStoreAgencyChecksum_def settled_def split: if_splits)
next
  case False
  with assms show ?thesis
    by (cases "firstAgencyChecksum db a")
       (simp_all add: calculateAndStoreAgencyChecksum_def settled_def freshContentHash_def Let_def
          split: if_splits)
qed

lemma calc_nofail_settles:
  assumes "\<forall>c. \<not> fails c"
  shows "\<exists>r db'. calculateAndStoreAgencyChecksum fails plan now db a = Inr (r, db') \<and> settled plan db' a"
proof -
  obtain r db' where eq: "calculateAndStoreAgencyChecksum fails plan now db a = Inr (r, db')"
    using calc_total_nofail[OF assms] by blast
  have nf: "\<not> fails (FirstAgencyChecksum a)" using assms by blast
  from eq have "settled plan db' a"
  proof (cases rule: calc_cases)
    case skip
    with eq nf show ?thesis using calc_skipped_settled by blast
  next
    case (upd ex)
    with eq show ?thesis using calc_written_settled by blast
  next
    case cre
    with eq show ?thesis using calc_written_settled by blast
  qed
  with eq show ?thesis by blast
qed

lemma process_Cons_Inl:
  "calculateAndStoreAgencyChecksum fails plan now db b = Inl e \<Longrightarrow>
   processAgencies fails plan now db (b # ids) =
     (Inl e # fst (processAgencies fails plan now db ids), snd (processAgencies fails plan now db ids))"
  by (simp split: prod.splits)

lemma process_Cons_Inr:
  "calculateAndStoreAgencyChecksum fails plan now db b = Inr (r, db1) \<Longrightarrow>
   processAgencies fails plan now db (b # ids) =
     (Inr r # fst (processAgencies fails plan now db1 ids), snd (processAgencies fails plan now db1 ids))"
  by (simp split: prod.splits)

lemma process_preserves_settled:
  "settled plan db a \<Longrightarrow> settled plan (snd (processAgencies fails plan now db ids)) a"
proof (induction ids arbitrary: db)
  case Nil
  then show ?case by simp
next
  case (Cons b ids)
  show ?case
  proof (cases "calculateAndStoreAgencyChecksum fails plan now db b")
    case (Inl e)
    show ?thesis unfolding process_Cons_Inl[OF Inl] using Cons by simp
  next
    case (Inr p)
    obtain r db1 where p: "p = (r, db1)" by (cases p)
    have eq: "calculateAndStoreAgencyChecksum fails plan now db b = Inr (r, db1)" using Inr p by simp
    have "settled plan db1 a" using calc_preserves_settled[OF Cons.prems eq] .
    from Cons.IH[OF this] show ?thesis unfolding process_Cons_Inr[OF eq] by simp
  qed
qed

lemma process_written_settled:
  "i < length ids \<Longrightarrow>
   fst (processAgencies fails plan now db ids) ! i = Inr ''created'' \<or>
   fst (processAgencies fails plan now db ids) ! i = Inr ''updated'' \<Longrightarrow>
   settled plan (snd (processAgencies fails plan now db ids)) (ids ! i)"
proof (induction ids arbitrary: db i)
  case Nil
  then show ?case by simp
next
  case (Cons b ids)
  show ?case
  proof (cases "calculateAndStoreAgencyChecksum fails plan now db b")
    case (Inl e)
    note step = process_Cons_Inl[OF Inl, of ids]
    show ?thesis
    proof (cases i)
      case 0
      with Cons.prems show ?thesis unfolding step by simp
    next
      case (Suc j)
      with Cons.prems Cons.IH[of j db] show ?thesis unfolding step by simp
    qed
  next
    case (Inr p)
    obtain r db1 where p: "p = (r, db1)" by (cases p)
    have eq: "calculateAndStoreAgencyChecksum fails plan now db b = Inr (r, db1)" using Inr p by simp
    note step = process_Cons_Inr[OF eq, of ids]
    show ?thesis
    proof (cases i)
      case 0
      with Cons.prems have "r = ''created'' \<or> r = ''updated''"
        unfolding step by simp
      then have "settled plan db1 b" using calc_written_settled[OF eq] by blast
      then have "settled plan (snd (processAgencies fails plan now db1 ids)) b"
        by (rule process_preserves_settled)
      with 0 show ?thesis unfolding step by simp
    next
      case (Suc j)
      with Cons.prems Cons.IH[of j db1] show ?thesis unfolding step by simp
    qed
  qed
qed

lemma process_settled_skips:
  "settled plan db (ids ! i) \<Longrightarrow> i < length ids \<Longrightarrow>
   \<not> fails (FetchTitleChecksums (ids ! i)) \<Longrightarrow> \<not> fails (FirstAgencyChecksum (ids ! i)) \<Longrightarrow>
   fst (processAgencies fails plan now db ids) ! i = Inr ''skipped''"
proof (induction ids arbitrary: db i)
  case Nil
  then show ?case by simp
next
  case (Cons b ids)
  show ?case
  proof (cases i)
    case 0
    with Cons.prems have "calculateAndStoreAgencyChecksum fails plan now db b = Inr (''skipped'', db)"
      by (intro calc_settled_skips) simp_all
    from process_Cons_Inr[OF this, of ids] 0 show ?thesis by simp
  next
    case (Suc j)
    show ?thesis
    proof (cases "calculateAndStoreAgencyChecksum fails plan now db b")
      case (Inl e)
      note step = process_Cons_Inl[OF Inl, of ids]
      from Suc Cons.prems Cons.IH[of db j] show ?thesis unfolding step by simp
    next
      case (Inr p)
      obtain r db1 where p: "p = (r, db1)" by (cases p)
      have eq: "calculateAndStoreAgencyChecksum fails plan now db b = Inr (r, db1)" using Inr p by simp
      note step = process_Cons_Inr[OF eq, of ids]
      have "settled plan db (ids ! j)" using Cons.prems(1) Suc by simp
      then have "settled plan db1 (ids ! j)" using eq by (rule calc_preserves_settled)
      with Suc Cons.prems Cons.IH[of db1 j] show ?thesis unfolding step by simp
    qed
  qed
qed

lemma process_nofail_settles:
  "\<forall>c. \<not> fails c \<Longrightarrow> a \<in> set ids \<Longrightarrow> settled plan (snd (processAgencies fails plan now db ids)) a"
proof (induction ids arbitrary: db)
  case Nil
  then show ?case by simp
next
  case (Cons b ids)
  obtain r db1 where eq: "calculateAndStoreAgencyChecksum fails plan now db b = Inr (r, db1)"
    and st: "settled plan db1 b"
    using calc_nofail_settles[OF Cons.prems(1)] by blast
  note step = process_Cons_Inr[OF eq, of ids]
  show ?case
  proof (cases "a = b")
    case True
    with st process_preserves_settled[of plan db1 b fails now ids] show ?thesis
      unfolding step by simp
  next
    case False
    with Cons.prems have "a \<in> set ids" by simp
    from Cons.IH[OF Cons.prems(1) this, of db1] show ?thesis unfolding step by simp
  qed
qed

lemma process_all_settled:
  "\<forall>a \<in> set ids. settled plan db a \<and> \<not> fails (FetchTitleChecksums a) \<and> \<not> fails (FirstAgencyChecksum a) \<Longrightarrow>
   processAgencies fails plan now db ids = (replicate (length ids) (Inr ''skipped''), db)"
proof (induction ids)
  case Nil
  then show ?case by simp
next
  case (Cons b ids)
  have "calculateAndStoreAgencyChecksum fails plan now db b = Inr (''skipped'', db)"
    using Cons.prems by (intro calc_settled_skips) simp_all
  note step = process_Cons_Inr[OF this, of ids]
  have "processAgencies fails plan now db ids = (replicate (length ids) (Inr ''skipped''), db)"
    using Cons by simp
  then show ?case unfolding step by simp
qed

lemma calc_frame:
  assumes "calculateAndStoreAgencyChecksum fails plan now db b = Inr (r, db')"
  shows "agencies db' = agencies db"
  using assms by (cases rule: calc_cases) simp_all

lemma process_frame: "agencies (snd (processAgencies fails plan now db ids)) = agencies db"
proof (induction ids arbitrary: db)
  case Nil
  then show ?case by simp
next
  case (Cons b ids)
  show ?case
  proof (cases "calculateAndStoreAgencyChecksum fails plan now db b")
    case (Inl e)
    show ?thesis unfolding process_Cons_Inl[OF Inl] using Cons by simp
  next
    case (Inr p)
    obtain r db1 where eq: "calculateAndStoreAgencyChecksum fails plan now db b = Inr (r, db1)"
      using Inr by (cases p) simp
    show ?thesis unfolding process_Cons_Inr[OF eq] using Cons[of db1] calc_frame[OF eq] by simp
  qed
qed

lemma stats_all_skipped:
  "checksumStats (replicate n (Inr ''skipped'')) =
     \<lparr>stats_total = n, stats_created_updated = 0, stats_skipped = n, stats_errors = 0\<rparr>"
  by (simp add: checksumStats_def)

lemma calc_tables:
  assumes "calculateAndStoreAgencyChecksum fails plan now db b = Inr (r, db')"
  shows "title_contents db' = title_contents db \<and> titles db' = titles db \<and>
         agency_cfr_references db' = agency_cfr_references db"
  using assms by (cases rule: calc_cases) simp_all

lemma process_tables:
  "title_contents (snd (processAgencies fails plan now db ids)) = title_contents db \<and>
   titles (snd (processAgencies fails plan now db ids)) = titles db \<and>
   agency_cfr_references (snd (processAgencies fails plan now db ids)) = agency_cfr_references db"
proof (induction ids arbitrary: db)
  case Nil
  then show ?case by simp
next
  case (Cons b ids)
  show ?case
  proof (cases "calculateAndStoreAgencyChecksum fails plan now db b")
    case (Inl e)
    show ?thesis unfolding process_Cons_Inl[OF Inl] using Cons by simp
  next
    case (Inr p)
    obtain r db1 where eq: "calculateAndStoreAgencyChecksum fails plan now db b = Inr (r, db1)"
      using Inr by (cases p) simp
    show ?thesis unfolding process_Cons_Inr[OF eq] using Cons[of db1] calc_tables[OF eq] by simp
  qed
qed

text \<open>
  The order of the server plays no part when no two different rows of the agency have
  the same title number.
\<close>

lemma query_plan_irrelevant:
  assumes "inj_on fst (set (titleChecksumRows db a))"
  shows "queryTitleChecksums plan' db a = queryTitleChecksums plan db a"
proof -
  have m: "mset (serverOrder (plan' (FetchTitleChecksums a)) (titleChecksumRows db a)) =
           mset (serverOrder (plan (FetchTitleChecksums a)) (titleChecksumRows db a))"
    by simp
  have "inj_on fst (set (serverOrder (plan' (FetchTitleChecksums a)) (titleChecksumRows db a)))"
    using assms by simp
  with m show ?thesis
    unfolding queryTitleChecksums_def by (rule sort_key_eq_sort_key)
qed

text \<open>Every order of the rows that \<open>ORDER BY t.number\<close> allows is the answer under some plan.\<close>

lemma query_any_order:
  assumes "mset ys = mset (titleChecksumRows db a)" "sorted (map fst ys)"
  shows "\<exists>plan. queryTitleChecksums plan db a = ys"
proof -
  obtain rank where r: "serverOrder rank (titleChecksumRows db a) = ys"
    using serverOrder_complete[OF assms(1)] by blast
  have "queryTitleChecksums (\<lambda>c. rank) db a = ys"
    unfolding queryTitleChecksums_def r using assms(2) by (rule sort_key_id_if_sorted)
  then show ?thesis by blast
qed

lemma query_is_ordered:
  "mset (queryTitleChecksums plan db a) = mset (titleChecksumRows db a) \<and>
   sorted (map fst (queryTitleChecksums plan db a))"
  by (simp add: queryTitleChecksums_def)

text \<open>
  A second run that gets the rows of every agency in the order of the first run skips
  every agency.
\<close>

lemma handler_second_run:
  assumes nf1: "\<forall>c. \<not> fails1 c" and nf2: "\<forall>c. \<not> fails2 c"
    and same: "\<forall>a. queryTitleChecksums plan2 db a = queryTitleChecksums plan db a"
  shows "CalculateChecksumsHandler fails2 plan2 now2
           (snd (CalculateChecksumsHandler fails1 plan now1 db)) =
     ((200, Some \<lparr>stats_total = length (agencies db), stats_created_updated = 0,
                  stats_skipped = length (agencies db), stats_errors = 0\<rparr>),
      snd (CalculateChecksumsHandler fails1 plan now1 db))"
proof -
  let ?ids = "map Agency_ID (serverOrder (plan FindAgencies) (agencies db))"
  let ?ids2 = "map Agency_ID (serverOrder (plan2 FindAgencies) (agencies db))"
  let ?db1 = "snd (processAgencies fails1 plan now1 db ?ids)"
  have h1: "snd (CalculateChecksumsHandler fails1 plan now1 db) = ?db1"
    using nf1 by (simp add: CalculateChecksumsHandler_def split: prod.splits)
  have ag: "agencies ?db1 = agencies db" by (rule process_frame)
  have t: "queryTitleChecksums p ?db1 a = queryTitleChecksums p db a" for p a
    using process_tables[of fails1 plan now1 db ?ids] by (intro query_tables) simp_all
  have q: "queryTitleChecksums plan2 ?db1 a = queryTitleChecksums plan ?db1 a" for a
    using same by (simp only: t)
  have "settled plan ?db1 a" if "a \<in> set ?ids2" for a
  proof -
    from that have "a \<in> set ?ids" by simp
    then show ?thesis using process_nofail_settles[OF nf1] by blast
  qed
  then have "\<forall>a \<in> set ?ids2. settled plan2 ?db1 a \<and> \<not> fails2 (FetchTitleChecksums a) \<and>
      \<not> fails2 (FirstAgencyChecksum a)"
    using nf2 by (simp add: settled_def freshContentHash_def q)
  then have "processAgencies fails2 plan2 now2 ?db1 ?ids2 =
      (replicate (length ?ids2) (Inr ''skipped''), ?db1)"
    by (rule process_all_settled)
  then show ?thesis
    unfolding h1 using nf2 ag by (simp add: CalculateChecksumsHandler_def stats_all_skipped)
qed

lemma query_empty:
  assumes "\<forall>tc \<in> set (title_contents db). \<forall>t \<in> set (titles db).
            \<forall>acr \<in> set (agency_cfr_references db).
              TC_TitleID tc = Title_ID t \<and> Ref_TitleID acr = Title_ID t \<and> Ref_AgencyID acr = a
              \<longrightarrow> TC_Checksum tc = None \<or> TC_Checksum tc = Some []"
  shows "queryTitleChecksums plan db a = []"
proof -
  have "set (titleChecksumRows db a) = {}"
  proof (rule ccontr)
    assume "set (titleChecksumRows db a) \<noteq> {}"
    then obtain tc t acr c where m: "tc \<in> set (title_contents db)" "t \<in> set (titles db)"
      "acr \<in> set (agency_cfr_references db)" "TC_TitleID tc = Title_ID t"
      "Ref_TitleID acr = Title_ID t" "Ref_AgencyID acr = a" "TC_Checksum tc = Some c" "c \<noteq> []"
      by (auto simp: titleChecksumRows_def split: option.splits if_splits) metis
    from assms m(1-6) have "TC_Checksum tc = None \<or> TC_Checksum tc = Some []" by blast
    with m(7,8) show False by simp
  qed
  then show ?thesis by (simp add: queryTitleChecksums_def)
qed

lemma calc_skip_forward:
  assumes "\<not> fails (FetchTitleChecksums a)" "\<not> fails (FirstAgencyChecksum a)"
    "firstAgencyChecksum db a = Some ex" "AC_ContentHash ex = freshContentHash plan db a"
  shows "calculateAndStoreAgencyChecksum fails plan now db a = Inr (''skipped'', db)"
  using assms
  by (simp add: calculateAndStoreAgencyChecksum_def Let_def freshContentHash_def)

lemma calc_update_forward:
  assumes "\<not> fails (FetchTitleChecksums a)" "\<not> fails (FirstAgencyChecksum a)"
    "queryTitleChecksums plan db a \<noteq> []"
    "firstAgencyChecksum db a = Some ex" "AC_ContentHash ex \<noteq> freshContentHash plan db a"
    "\<not> fails (SaveAgencyChecksum a)"
  shows "\<exists>db'. calculateAndStoreAgencyChecksum fails plan now db a = Inr (''updated'', db')"
  using assms
  by (simp add: calculateAndStoreAgencyChecksum_def Let_def freshContentHash_def)

lemma calc_create_forward:
  assumes "\<not> fails (FetchTitleChecksums a)"
    "queryTitleChecksums plan db a \<noteq> []"
    "firstAgencyChecksum db a = None" "\<not> fails (CreateAgencyChecksum a)"
  shows "\<exists>db'. calculateAndStoreAgencyChecksum fails plan now db a = Inr (''created'', db')"
  using assms
  by (simp add: calculateAndStoreAgencyChecksum_def Let_def freshContentHash_def)

lemma calc_written_row:
  assumes "calculateAndStoreAgencyChecksum fails plan now db a = Inr (r, db')"
    and "r = ''created'' \<or> r = ''updated''"
  shows "\<exists>row. firstAgencyChecksum db' a = Some row \<and> AC_Checksum row = freshContentHash plan db a
           \<and> AC_ContentHash row = freshContentHash plan db a \<and> AC_UpdatedAt row = now"
  using assms(1)
proof (cases rule: calc_cases)
  case skip
  with assms(2) show ?thesis by simp
next
  case (upd ex)
  have kb: "AC_AgencyID ex = a" using upd(2) by (rule first_key)
  have "firstAgencyChecksum db' a =
        Some (ex\<lparr>AC_Checksum := freshContentHash plan db a,
                 AC_ContentHash := freshContentHash plan db a, AC_UpdatedAt := now\<rparr>)"
    using upd(2) kb unfolding firstAgencyChecksum_def upd(5)
    by (auto intro!: find_map_same)
  then show ?thesis by simp
next
  case cre
  then show ?thesis
    by (simp add: firstAgencyChecksum_def find_snoc)
qed

lemma batch_query_empty:
  assumes "\<forall>tc \<in> set (title_contents db). \<forall>t \<in> set (titles db).
            \<forall>acr \<in> set (agency_cfr_references db).
              TC_TitleID tc = Title_ID t \<and> Ref_TitleID acr = Title_ID t \<and> Ref_AgencyID acr = a
              \<longrightarrow> TC_Checksum tc = None \<or> TC_Checksum tc = Some []"
  shows "filter (\<lambda>r. fst r = a) (queryBatchTitleChecksums plan db agencyIDs) = []"
proof -
  have "fst r \<noteq> a" if "r \<in> set (batchTitleChecksumRows db agencyIDs)" for r
  proof
    assume "fst r = a"
    with that obtain tc t acr c where m: "tc \<in> set (title_contents db)" "t \<in> set (titles db)"
      "acr \<in> set (agency_cfr_references db)" "TC_TitleID tc = Title_ID t"
      "Ref_TitleID acr = Title_ID t" "Ref_AgencyID acr = a" "TC_Checksum tc = Some c" "c \<noteq> []"
      by (auto simp: batchTitleChecksumRows_def split: option.splits if_splits) metis
    from assms m(1-6) have "TC_Checksum tc = None \<or> TC_Checksum tc = Some []" by blast
    with m(7,8) show False by simp
  qed
  then show ?thesis by (simp add: filter_empty_conv queryBatchTitleChecksums_def)
qed

section \<open>Checksum engine: the claims\<close>

lemma serverOrder_single [simp]: "serverOrder rank [x] = [x]"
  by (simp add: serverOrder_def)

lemma query_heap_day12:
  "queryTitleChecksums heapOrder (exampleDB [contentDay1, contentDay2]) 7 =
     [(10, ''ba7816bf8f01cfea414140de5dae2223b00361a396177a9cb410ff61f20015ad''), (10, ''248d6a61d20638b8e5c026930c3e6039a33ce45964ff2167f6ecedd419db06c1'')]"
  by code_simp

lemma query_heap_day21:
  "queryTitleChecksums heapOrder (exampleDB [contentDay2, contentDay1]) 7 =
     [(10, ''248d6a61d20638b8e5c026930c3e6039a33ce45964ff2167f6ecedd419db06c1''), (10, ''ba7816bf8f01cfea414140de5dae2223b00361a396177a9cb410ff61f20015ad'')]"
  by code_simp

lemma query_backward_day12:
  "queryTitleChecksums backwardOrder (exampleDB [contentDay1, contentDay2]) 7 =
     [(10, ''248d6a61d20638b8e5c026930c3e6039a33ce45964ff2167f6ecedd419db06c1''), (10, ''ba7816bf8f01cfea414140de5dae2223b00361a396177a9cb410ff61f20015ad'')]"
  by code_simp

lemma batch_heap_day12:
  "queryBatchTitleChecksums heapOrder (exampleDB [contentDay1, contentDay2]) [7] =
     [(7, 10, ''ba7816bf8f01cfea414140de5dae2223b00361a396177a9cb410ff61f20015ad''), (7, 10, ''248d6a61d20638b8e5c026930c3e6039a33ce45964ff2167f6ecedd419db06c1'')]"
  by code_simp

lemma batch_backward_day12:
  "queryBatchTitleChecksums backwardOrder (exampleDB [contentDay1, contentDay2]) [7] =
     [(7, 10, ''248d6a61d20638b8e5c026930c3e6039a33ce45964ff2167f6ecedd419db06c1''), (7, 10, ''ba7816bf8f01cfea414140de5dae2223b00361a396177a9cb410ff61f20015ad'')]"
  by code_simp

lemma hash_day12:
  "sha256_hex (contentBuilder [(10, ''ba7816bf8f01cfea414140de5dae2223b00361a396177a9cb410ff61f20015ad''), (10, ''248d6a61d20638b8e5c026930c3e6039a33ce45964ff2167f6ecedd419db06c1'')]) =
     ''ccd8ec54acff2b9a5b00f525cf5a4f1dda41c7baae770563e9f51bcb897588df''"
  by code_simp

lemma hash_day21:
  "sha256_hex (contentBuilder [(10, ''248d6a61d20638b8e5c026930c3e6039a33ce45964ff2167f6ecedd419db06c1''), (10, ''ba7816bf8f01cfea414140de5dae2223b00361a396177a9cb410ff61f20015ad'')]) =
     ''26a7f6c76330ff0906edbcca02185dcb49c932dec08e3842b64b3d1fee8a7ca6''"
  by code_simp

lemma example_no_checksum:
  "firstAgencyChecksum (exampleDB cs) 7 = None" "agency_checksums (exampleDB cs) = []"
  by (simp_all add: firstAgencyChecksum_def exampleDB_def)

lemma first_run_heap:
  "calculateAndStoreAgencyChecksum (\<lambda>c. False) heapOrder 0 (exampleDB [contentDay1, contentDay2]) 7 =
     Inr (''created'', afterFirstRun)"
  unfolding calculateAndStoreAgencyChecksum_def query_heap_day12 Let_def hash_day12
    example_no_checksum afterFirstRun_def
  by simp

text \<open>
  Claim C1. The agency checksum is the SHA-256 of the lines \<open>TITLE_<number>:<checksum>\<close>
  in title-number order and should not depend on the order in which the rows come. The
  query orders by title number only, and it returns one row for every content date of a
  title: with two downloads of title 10 the same rows give two different agency
  checksums, depending on which of them comes first, be it that the table holds them in
  the other order or that the server reads the same table backward. The batch
  computation differs in the same way.
\<close>

theorem C1_same_title_rows_order_changes_checksum:
  "mset (title_contents (exampleDB [contentDay1, contentDay2])) =
   mset (title_contents (exampleDB [contentDay2, contentDay1])) \<and>
   calculateAndStoreAgencyChecksum (\<lambda>c. False) heapOrder 0 (exampleDB [contentDay1, contentDay2]) 7 =
     Inr (''created'', (exampleDB [contentDay1, contentDay2])\<lparr>agency_checksums :=
        [\<lparr>AC_AgencyID = 7, AC_Checksum = ''ccd8ec54acff2b9a5b00f525cf5a4f1dda41c7baae770563e9f51bcb897588df'', AC_ContentHash = ''ccd8ec54acff2b9a5b00f525cf5a4f1dda41c7baae770563e9f51bcb897588df'', AC_UpdatedAt = 0\<rparr>]\<rparr>) \<and>
   calculateAndStoreAgencyChecksum (\<lambda>c. False) heapOrder 0 (exampleDB [contentDay2, contentDay1]) 7 =
     Inr (''created'', (exampleDB [contentDay2, contentDay1])\<lparr>agency_checksums :=
        [\<lparr>AC_AgencyID = 7, AC_Checksum = ''26a7f6c76330ff0906edbcca02185dcb49c932dec08e3842b64b3d1fee8a7ca6'', AC_ContentHash = ''26a7f6c76330ff0906edbcca02185dcb49c932dec08e3842b64b3d1fee8a7ca6'', AC_UpdatedAt = 0\<rparr>]\<rparr>) \<and>
   calculateAndStoreAgencyChecksum (\<lambda>c. False) backwardOrder 0 (exampleDB [contentDay1, contentDay2]) 7 =
     Inr (''created'', (exampleDB [contentDay1, contentDay2])\<lparr>agency_checksums :=
        [\<lparr>AC_AgencyID = 7, AC_Checksum = ''26a7f6c76330ff0906edbcca02185dcb49c932dec08e3842b64b3d1fee8a7ca6'', AC_ContentHash = ''26a7f6c76330ff0906edbcca02185dcb49c932dec08e3842b64b3d1fee8a7ca6'', AC_UpdatedAt = 0\<rparr>]\<rparr>) \<and>
   calculateBatchAgencyChecksumsOptimized (\<lambda>c. False) heapOrder
       (exampleDB [contentDay1, contentDay2]) [7] 7 =
     Some ''ccd8ec54acff2b9a5b00f525cf5a4f1dda41c7baae770563e9f51bcb897588df'' \<and>
   calculateBatchAgencyChecksumsOptimized (\<lambda>c. False) backwardOrder
       (exampleDB [contentDay1, contentDay2]) [7] 7 =
     Some ''26a7f6c76330ff0906edbcca02185dcb49c932dec08e3842b64b3d1fee8a7ca6''"
proof -
  have m: "mset (title_contents (exampleDB [contentDay1, contentDay2])) =
           mset (title_contents (exampleDB [contentDay2, contentDay1]))"
    by (simp add: exampleDB_def)
  have c1: "calculateAndStoreAgencyChecksum (\<lambda>c. False) heapOrder 0 (exampleDB [contentDay1, contentDay2]) 7 =
     Inr (''created'', (exampleDB [contentDay1, contentDay2])\<lparr>agency_checksums :=
        [\<lparr>AC_AgencyID = 7, AC_Checksum = ''ccd8ec54acff2b9a5b00f525cf5a4f1dda41c7baae770563e9f51bcb897588df'', AC_ContentHash = ''ccd8ec54acff2b9a5b00f525cf5a4f1dda41c7baae770563e9f51bcb897588df'', AC_UpdatedAt = 0\<rparr>]\<rparr>)"
    unfolding calculateAndStoreAgencyChecksum_def query_heap_day12 Let_def hash_day12
      example_no_checksum
    by simp
  have c2: "calculateAndStoreAgencyChecksum (\<lambda>c. False) heapOrder 0 (exampleDB [contentDay2, contentDay1]) 7 =
     Inr (''created'', (exampleDB [contentDay2, contentDay1])\<lparr>agency_checksums :=
        [\<lparr>AC_AgencyID = 7, AC_Checksum = ''26a7f6c76330ff0906edbcca02185dcb49c932dec08e3842b64b3d1fee8a7ca6'', AC_ContentHash = ''26a7f6c76330ff0906edbcca02185dcb49c932dec08e3842b64b3d1fee8a7ca6'', AC_UpdatedAt = 0\<rparr>]\<rparr>)"
    unfolding calculateAndStoreAgencyChecksum_def query_heap_day21 Let_def hash_day21
      example_no_checksum
    by simp
  have c3: "calculateAndStoreAgencyChecksum (\<lambda>c. False) backwardOrder 0 (exampleDB [contentDay1, contentDay2]) 7 =
     Inr (''created'', (exampleDB [contentDay1, contentDay2])\<lparr>agency_checksums :=
        [\<lparr>AC_AgencyID = 7, AC_Checksum = ''26a7f6c76330ff0906edbcca02185dcb49c932dec08e3842b64b3d1fee8a7ca6'', AC_ContentHash = ''26a7f6c76330ff0906edbcca02185dcb49c932dec08e3842b64b3d1fee8a7ca6'', AC_UpdatedAt = 0\<rparr>]\<rparr>)"
    unfolding calculateAndStoreAgencyChecksum_def query_backward_day12 Let_def hash_day21
      example_no_checksum
    by simp
  have b1: "calculateBatchAgencyChecksumsOptimized (\<lambda>c. False) heapOrder
       (exampleDB [contentDay1, contentDay2]) [7] 7 =
     Some ''ccd8ec54acff2b9a5b00f525cf5a4f1dda41c7baae770563e9f51bcb897588df''"
    unfolding calculateBatchAgencyChecksumsOptimized_def batch_heap_day12 Let_def
    by (simp add: hash_day12)
  have b2: "calculateBatchAgencyChecksumsOptimized (\<lambda>c. False) backwardOrder
       (exampleDB [contentDay1, contentDay2]) [7] 7 =
     Some ''26a7f6c76330ff0906edbcca02185dcb49c932dec08e3842b64b3d1fee8a7ca6''"
    unfolding calculateBatchAgencyChecksumsOptimized_def batch_backward_day12 Let_def
    by (simp add: hash_day21)
  show ?thesis
    using m c1 c2 c3 b1 b2 by (simp only: simp_thms)
qed

text \<open>
  What holds of the change detection under every plan: an equal stored hash gives
  ``skipped'' and leaves the store as it is, a different one gives ``updated'' and no
  stored row gives ``created'', the row then holding the fresh hash; and an agency that a
  run created or updated is skipped by a second run that gets its rows in the same order.
\<close>

lemma change_detection_outcomes:
  assumes "\<not> fails (FetchTitleChecksums a)" "\<not> fails (FirstAgencyChecksum a)"
    "queryTitleChecksums plan db a \<noteq> []"
  shows "case firstAgencyChecksum db a of
         Some existing \<Rightarrow>
           (AC_ContentHash existing = freshContentHash plan db a \<longrightarrow>
              calculateAndStoreAgencyChecksum fails plan now db a = Inr (''skipped'', db)) \<and>
           (AC_ContentHash existing \<noteq> freshContentHash plan db a \<and> \<not> fails (SaveAgencyChecksum a) \<longrightarrow>
              (\<exists>db' row. calculateAndStoreAgencyChecksum fails plan now db a = Inr (''updated'', db') \<and>
                 firstAgencyChecksum db' a = Some row \<and>
                 AC_Checksum row = freshContentHash plan db a \<and>
                 AC_ContentHash row = freshContentHash plan db a \<and> AC_UpdatedAt row = now))
       | None \<Rightarrow>
           \<not> fails (CreateAgencyChecksum a) \<longrightarrow>
             (\<exists>db' row. calculateAndStoreAgencyChecksum fails plan now db a = Inr (''created'', db') \<and>
                firstAgencyChecksum db' a = Some row \<and>
                AC_Checksum row = freshContentHash plan db a \<and>
                AC_ContentHash row = freshContentHash plan db a \<and> AC_UpdatedAt row = now)"
proof (cases "firstAgencyChecksum db a")
  case None
  show ?thesis
  proof (simp only: None option.case, intro impI)
    assume "\<not> fails (CreateAgencyChecksum a)"
    with assms None obtain db' where
      eq: "calculateAndStoreAgencyChecksum fails plan now db a = Inr (''created'', db')"
      using calc_create_forward by blast
    from calc_written_row[OF eq] eq
    show "\<exists>db' row. calculateAndStoreAgencyChecksum fails plan now db a = Inr (''created'', db') \<and>
              firstAgencyChecksum db' a = Some row \<and>
              AC_Checksum row = freshContentHash plan db a \<and>
              AC_ContentHash row = freshContentHash plan db a \<and> AC_UpdatedAt row = now"
      by blast
  qed
next
  case (Some ex)
  show ?thesis
  proof (simp only: Some option.case, intro conjI impI)
    assume "AC_ContentHash ex = freshContentHash plan db a"
    with assms Some show "calculateAndStoreAgencyChecksum fails plan now db a = Inr (''skipped'', db)"
      using calc_skip_forward by blast
  next
    assume "AC_ContentHash ex \<noteq> freshContentHash plan db a \<and> \<not> fails (SaveAgencyChecksum a)"
    with assms Some obtain db' where
      eq: "calculateAndStoreAgencyChecksum fails plan now db a = Inr (''updated'', db')"
      using calc_update_forward by blast
    from calc_written_row[OF eq] eq
    show "\<exists>db' row. calculateAndStoreAgencyChecksum fails plan now db a = Inr (''updated'', db') \<and>
               firstAgencyChecksum db' a = Some row \<and>
               AC_Checksum row = freshContentHash plan db a \<and>
               AC_ContentHash row = freshContentHash plan db a \<and> AC_UpdatedAt row = now"
      by blast
  qed
qed

lemma rerun_same_order_skips:
  assumes "i < length ids"
    and "fst (processAgencies fails plan now db ids) ! i = Inr ''created'' \<or>
         fst (processAgencies fails plan now db ids) ! i = Inr ''updated''"
    and "\<not> fails2 (FetchTitleChecksums (ids ! i))" "\<not> fails2 (FirstAgencyChecksum (ids ! i))"
  shows "fst (processAgencies fails2 plan now2 (snd (processAgencies fails plan now db ids)) ids) ! i
          = Inr ''skipped''"
proof -
  have "settled plan (snd (processAgencies fails plan now db ids)) (ids ! i)"
    using assms(1,2) by (rule process_written_settled)
  then show ?thesis using assms(1,3,4) by (rule process_settled_skips)
qed

text \<open>
  Claim C5. Two consecutive recalculations with no content change in between should
  leave every agency that the first created as skipped by the second. The fresh hash is
  taken over the rows in the order in which the query returns them, and that order is
  open for the rows of one title. The first run creates the checksum row of the agency
  and changes no other table; the second run, on the store that the first run left, gets
  the two rows of title 10 in the other order, finds a hash that differs from the stored
  one, and answers ``updated'': the handler counts one agency created or updated and
  none skipped, and the stored checksum changes. Only a second run that gets the rows
  in the order of the first skips the agency.
\<close>

theorem C5_rerun_in_other_order_is_updated:
  "CalculateChecksumsHandler (\<lambda>c. False) heapOrder 0 (exampleDB [contentDay1, contentDay2]) =
     ((200, Some \<lparr>stats_total = 1, stats_created_updated = 1, stats_skipped = 0, stats_errors = 0\<rparr>),
      afterFirstRun) \<and>
   title_contents afterFirstRun = title_contents (exampleDB [contentDay1, contentDay2]) \<and>
   titles afterFirstRun = titles (exampleDB [contentDay1, contentDay2]) \<and>
   agency_cfr_references afterFirstRun = agency_cfr_references (exampleDB [contentDay1, contentDay2]) \<and>
   calculateAndStoreAgencyChecksum (\<lambda>c. False) backwardOrder 2 afterFirstRun 7 =
     Inr (''updated'', afterFirstRun\<lparr>agency_checksums :=
        [\<lparr>AC_AgencyID = 7,
          AC_Checksum = ''26a7f6c76330ff0906edbcca02185dcb49c932dec08e3842b64b3d1fee8a7ca6'',
          AC_ContentHash = ''26a7f6c76330ff0906edbcca02185dcb49c932dec08e3842b64b3d1fee8a7ca6'',
          AC_UpdatedAt = 2\<rparr>]\<rparr>) \<and>
   fst (CalculateChecksumsHandler (\<lambda>c. False) backwardOrder 2 afterFirstRun) =
     (200, Some \<lparr>stats_total = 1, stats_created_updated = 1, stats_skipped = 0, stats_errors = 0\<rparr>) \<and>
   CalculateChecksumsHandler (\<lambda>c. False) heapOrder 2 afterFirstRun =
     ((200, Some \<lparr>stats_total = 1, stats_created_updated = 0, stats_skipped = 1, stats_errors = 0\<rparr>),
      afterFirstRun)"
proof -
  have ag: "agencies (exampleDB cs) =
      [\<lparr>Agency_ID = 7, Agency_Name = ''Department of Examples'',
        Agency_Slug = ''dept-examples'', Agency_ParentID = None\<rparr>]" for cs
    by (simp add: exampleDB_def)
  have ag1: "agencies afterFirstRun =
      [\<lparr>Agency_ID = 7, Agency_Name = ''Department of Examples'',
        Agency_Slug = ''dept-examples'', Agency_ParentID = None\<rparr>]"
    by (simp add: afterFirstRun_def exampleDB_def)
  have f1: "firstAgencyChecksum afterFirstRun 7 =
      Some \<lparr>AC_AgencyID = 7,
          AC_Checksum = ''ccd8ec54acff2b9a5b00f525cf5a4f1dda41c7baae770563e9f51bcb897588df'',
          AC_ContentHash = ''ccd8ec54acff2b9a5b00f525cf5a4f1dda41c7baae770563e9f51bcb897588df'',
          AC_UpdatedAt = 0\<rparr>"
    by (simp add: firstAgencyChecksum_def afterFirstRun_def)
  have qb: "queryTitleChecksums backwardOrder afterFirstRun 7 =
      queryTitleChecksums backwardOrder (exampleDB [contentDay1, contentDay2]) 7"
    and qh: "queryTitleChecksums heapOrder afterFirstRun 7 =
      queryTitleChecksums heapOrder (exampleDB [contentDay1, contentDay2]) 7"
    by (simp_all add: afterFirstRun_def)
  have up: "calculateAndStoreAgencyChecksum (\<lambda>c. False) backwardOrder 2 afterFirstRun 7 =
     Inr (''updated'', afterFirstRun\<lparr>agency_checksums :=
        [\<lparr>AC_AgencyID = 7,
          AC_Checksum = ''26a7f6c76330ff0906edbcca02185dcb49c932dec08e3842b64b3d1fee8a7ca6'',
          AC_ContentHash = ''26a7f6c76330ff0906edbcca02185dcb49c932dec08e3842b64b3d1fee8a7ca6'',
          AC_UpdatedAt = 2\<rparr>]\<rparr>)"
    unfolding calculateAndStoreAgencyChecksum_def qb query_backward_day12 Let_def hash_day21 f1
    by (simp add: afterFirstRun_def)
  have sk: "calculateAndStoreAgencyChecksum (\<lambda>c. False) heapOrder 2 afterFirstRun 7 =
     Inr (''skipped'', afterFirstRun)"
    unfolding calculateAndStoreAgencyChecksum_def qh query_heap_day12 Let_def hash_day12 f1
    by simp
  have h1: "CalculateChecksumsHandler (\<lambda>c. False) heapOrder 0 (exampleDB [contentDay1, contentDay2]) =
     ((200, Some \<lparr>stats_total = 1, stats_created_updated = 1, stats_skipped = 0, stats_errors = 0\<rparr>),
      afterFirstRun)"
    by (simp add: CalculateChecksumsHandler_def ag first_run_heap checksumStats_def)
  have h2: "fst (CalculateChecksumsHandler (\<lambda>c. False) backwardOrder 2 afterFirstRun) =
     (200, Some \<lparr>stats_total = 1, stats_created_updated = 1, stats_skipped = 0, stats_errors = 0\<rparr>)"
    by (simp add: CalculateChecksumsHandler_def ag1 up checksumStats_def)
  have h3: "CalculateChecksumsHandler (\<lambda>c. False) heapOrder 2 afterFirstRun =
     ((200, Some \<lparr>stats_total = 1, stats_created_updated = 0, stats_skipped = 1, stats_errors = 0\<rparr>),
      afterFirstRun)"
    by (simp add: CalculateChecksumsHandler_def ag1 sk checksumStats_def)
  have t: "title_contents afterFirstRun = title_contents (exampleDB [contentDay1, contentDay2])"
    "titles afterFirstRun = titles (exampleDB [contentDay1, contentDay2])"
    "agency_cfr_references afterFirstRun = agency_cfr_references (exampleDB [contentDay1, contentDay2])"
    by (simp_all add: afterFirstRun_def)
  show ?thesis
    using h1 t up h2 h3 by (simp only: simp_thms)
qed

text \<open>
  Claim C8. An agency none of whose referenced titles has a content row with a checksum
  that is neither NULL nor empty is skipped: the store is returned as it was, so no
  checksum row is created, and the batch computation has no entry for the agency.
\<close>

theorem C8_no_recorded_checksum_is_skipped:
  assumes "\<not> fails (FetchTitleChecksums agencyID)"
    and "\<forall>tc \<in> set (title_contents db). \<forall>t \<in> set (titles db).
          \<forall>acr \<in> set (agency_cfr_references db).
            TC_TitleID tc = Title_ID t \<and> Ref_TitleID acr = Title_ID t \<and> Ref_AgencyID acr = agencyID
            \<longrightarrow> TC_Checksum tc = None \<or> TC_Checksum tc = Some []"
  shows "calculateAndStoreAgencyChecksum fails plan now db agencyID = Inr (''skipped'', db) \<and>
         calculateBatchAgencyChecksumsOptimized fails plan db agencyIDs agencyID = None"
proof
  show "calculateAndStoreAgencyChecksum fails plan now db agencyID = Inr (''skipped'', db)"
    using assms(1) query_empty[OF assms(2)]
    by (simp add: calculateAndStoreAgencyChecksum_def)
  show "calculateBatchAgencyChecksumsOptimized fails plan db agencyIDs agencyID = None"
    using batch_query_empty[OF assms(2)]
    by (simp add: calculateBatchAgencyChecksumsOptimized_def)
qed

text \<open>The theorem at a store whose two content rows have a NULL and an empty checksum.\<close>

theorem C8_no_recorded_checksum_is_skipped_witness:
  "calculateAndStoreAgencyChecksum (\<lambda>c. False) heapOrder 0
      (exampleDB [contentDay1\<lparr>TC_Checksum := None\<rparr>, contentDay2\<lparr>TC_Checksum := Some []\<rparr>]) 7 =
     Inr (''skipped'',
      exampleDB [contentDay1\<lparr>TC_Checksum := None\<rparr>, contentDay2\<lparr>TC_Checksum := Some []\<rparr>]) \<and>
   agency_checksums
     (exampleDB [contentDay1\<lparr>TC_Checksum := None\<rparr>, contentDay2\<lparr>TC_Checksum := Some []\<rparr>]) = [] \<and>
   calculateBatchAgencyChecksumsOptimized (\<lambda>c. False) heapOrder
      (exampleDB [contentDay1\<lparr>TC_Checksum := None\<rparr>, contentDay2\<lparr>TC_Checksum := Some []\<rparr>]) [7] 7 = None"
  using C8_no_recorded_checksum_is_skipped[of "\<lambda>c. False" 7
      "exampleDB [contentDay1\<lparr>TC_Checksum := None\<rparr>, contentDay2\<lparr>TC_Checksum := Some []\<rparr>]"
      heapOrder 0 "[7]"]
  by (simp add: exampleDB_def contentDay1_def contentDay2_def)

section \<open>Import orchestrator: the status record\<close>

lemma stepProgress_4:
  "stepProgress 0 4 = 0" "stepProgress 1 4 = 25" "stepProgress 2 4 = 50"
  "stepProgress 3 4 = 75" "stepProgress 4 4 = 100" "stepProgress 5 4 = 125"
  by code_simp+

lemma completedSteps_range: "0 \<le> completedSteps s \<and> completedSteps s \<le> 5"
  by (simp add: completedSteps_def)

lemma stepProgress_quarters:
  assumes "0 \<le> n" "n \<le> 5"
  shows "stepProgress n 4 = 25 * n"
proof -
  from assms have "n = 0 \<or> n = 1 \<or> n = 2 \<or> n = 3 \<or> n = 4 \<or> n = 5" by arith
  then show ?thesis using stepProgress_4 by auto
qed

lemma setStepFlag_other [simp]:
  "TotalSteps (setStepFlag stepName s) = TotalSteps s"
  "IsLoading (setStepFlag stepName s) = IsLoading s"
  by (simp_all add: setStepFlag_def)

lemma markStepComplete_progress:
  "TotalSteps s = 4 \<Longrightarrow>
   Progress (markStepComplete now stepName s) = 25 * completedSteps (setStepFlag stepName s)"
  using completedSteps_range[of "setStepFlag stepName s"]
  by (simp add: markStepComplete_def Let_def stepProgress_quarters)

lemma markStepComplete_loading:
  "TotalSteps s = 4 \<Longrightarrow>
   IsLoading (markStepComplete now stepName s) =
     (IsLoading s \<and> completedSteps (setStepFlag stepName s) \<noteq> 4)"
  by (simp add: markStepComplete_def Let_def)

text \<open>
  Claim C2. \<open>markStepComplete\<close> counts five flags, the four steps and ``references'',
  against \<open>TotalSteps = 4\<close>. In a run from a fresh service, marking ``content'' done
  makes the count four: loading is cleared and the completion message is set while the
  historical step is still pending. Marking ``historical'' done makes the count five:
  the progress is 125 and loading stays set.
\<close>

theorem C2_loading_cleared_with_historical_pending:
  "(let s = statusAfterContent 3 (statusAfterTitles 2 (statusAfterAgencies 1 (NewImportService 0)));
        s' = statusAfterHistorical 4 s
    in \<not> IsLoading s \<and> CurrentStep s = ''All imports completed'' \<and> Progress s = 100 \<and>
       AgenciesDone s \<and> TitlesDone s \<and> ContentDone s \<and> \<not> HistoricalDone s \<and>
       AgenciesDone s' \<and> TitlesDone s' \<and> ContentDone s' \<and> HistoricalDone s' \<and>
       IsLoading s' \<and> CurrentStep s' = ''Historical snapshots completed'' \<and> Progress s' = 125)"
  by (simp add: statusAfterContent_def statusAfterTitles_def statusAfterAgencies_def
      statusAfterHistorical_def NewImportService_def markStepComplete_def setStepFlag_def
      completedSteps_def updateStatus_def setOverallStep_def Let_def stepProgress_4)

section \<open>Content downloader\<close>

lemma tryStrategies_all_fail:
  "\<forall>s \<in> set strategies. \<exists>e. StrategyDownload s n = Inl e \<Longrightarrow>
   tryStrategies strategies n lastErr =
     ([], if strategies = [] then lastErr
          else Some (projl (StrategyDownload (last strategies) n)))"
  by (induction strategies arbitrary: lastErr) auto

lemma tryStrategies_first_success:
  "\<forall>s \<in> set failed. \<exists>e. StrategyDownload s n = Inl e \<Longrightarrow> StrategyDownload s n = Inr content \<Longrightarrow>
   tryStrategies (failed @ s # rest) n lastErr = (content, None)"
  by (induction failed arbitrary: lastErr) auto

text \<open>
  Claim C7. The downloader holds the bulk strategy first and the API strategy second.
  For every title number it returns the bulk content when the bulk download succeeds,
  otherwise the API content when the API fetch succeeds, otherwise the empty content
  with the error of the API fetch, the last one observed.
\<close>

theorem C7_strategy_order:
  "map GetStrategyName (NewContentDownloader DownloadTitleXML FetchTitleContent) =
     [''Bulk Repository'', ''API''] \<and>
   DownloadTitleContent (NewContentDownloader DownloadTitleXML FetchTitleContent) titleNumber =
     (case DownloadTitleXML titleNumber of
        Inr content \<Rightarrow> (content, None)
      | Inl bulkErr \<Rightarrow>
          (case FetchTitleContent titleNumber [] of
             Inr content \<Rightarrow> (content, None)
           | Inl apiErr \<Rightarrow> ([], Some apiErr)))"
  by (simp add: DownloadTitleContent_def NewContentDownloader_def NewBulkContentStrategy_def
      NewAPIContentStrategy_def split: sum.splits)

section \<open>Word count\<close>

lemma ws_shape:
  "\<forall>p \<in> set whiteSpace. p \<noteq> [] \<and> \<not> contByte (hd p) \<and> (\<forall>c \<in> set (tl p). contByte c)"
  by (simp add: whiteSpace_def asciiSpace_def unicodeSpace_def contByte_def)

lemma ws_prefix_free:
  "\<forall>p \<in> set whiteSpace. \<forall>q \<in> set whiteSpace. prefix p q \<longrightarrow> p = q"
  by (simp add: whiteSpace_def asciiSpace_def unicodeSpace_def)

lemma ws_suffix_free:
  "\<forall>p \<in> set whiteSpace. \<forall>q \<in> set whiteSpace. suffix p q \<longrightarrow> p = q"
  by (simp add: whiteSpace_def asciiSpace_def unicodeSpace_def suffix_to_prefix)

lemma ws_perl:
  "\<forall>p \<in> set whiteSpace. \<not> perlSpace (hd p) \<longrightarrow> (\<forall>c \<in> set p. \<not> perlSpace c)"
  by (simp add: whiteSpace_def asciiSpace_def unicodeSpace_def perlSpace_def)

lemma perl_ws: "perlSpace c \<Longrightarrow> [c] \<in> set whiteSpace"
  by (auto simp: whiteSpace_def asciiSpace_def perlSpace_def)

lemma ws_nonempty: "q \<in> set whiteSpace \<Longrightarrow> q \<noteq> []"
  using ws_shape by blast

lemma ws_hd: "q \<in> set whiteSpace \<Longrightarrow> \<not> contByte (hd q)"
  using ws_shape by blast

lemma ws_tl: "q \<in> set whiteSpace \<Longrightarrow> c \<in> set (tl q) \<Longrightarrow> contByte c"
  using ws_shape by blast

lemma spaceWidth_eq:
  assumes "q \<in> set whiteSpace" "prefix q s"
  shows "spaceWidth s = length q"
proof -
  from assms obtain p where f: "find (\<lambda>p. prefix p s) whiteSpace = Some p"
    by (cases "find (\<lambda>p. prefix p s) whiteSpace") (auto simp: find_None_iff)
  then have p: "p \<in> set whiteSpace" "prefix p s"
    by (auto simp: find_Some_iff)
  from p(2) assms(2) have "prefix p q \<or> prefix q p"
    by (rule prefix_same_cases)
  with p(1) assms(1) ws_prefix_free have "p = q" by blast
  with f show ?thesis by (simp add: spaceWidth_def)
qed

lemma spaceWidth_pos:
  assumes "spaceWidth s \<noteq> 0"
  obtains q where "q \<in> set whiteSpace" "prefix q s" "spaceWidth s = length q"
proof -
  from assms obtain p where f: "find (\<lambda>p. prefix p s) whiteSpace = Some p"
    by (cases "find (\<lambda>p. prefix p s) whiteSpace") (auto simp: spaceWidth_def)
  then have "p \<in> set whiteSpace" "prefix p s"
    by (auto simp: find_Some_iff)
  moreover from f have "spaceWidth s = length p"
    by (simp add: spaceWidth_def)
  ultimately show ?thesis by (rule that)
qed

lemma spaceWidth_zero: "spaceWidth s = 0 \<longleftrightarrow> (\<forall>q \<in> set whiteSpace. \<not> prefix q s)"
proof
  assume z: "spaceWidth s = 0"
  show "\<forall>q \<in> set whiteSpace. \<not> prefix q s"
  proof
    fix q assume q: "q \<in> set whiteSpace"
    show "\<not> prefix q s"
    proof
      assume "prefix q s"
      with q have "spaceWidth s = length q" by (rule spaceWidth_eq)
      with z ws_nonempty[OF q] show False by simp
    qed
  qed
next
  assume "\<forall>q \<in> set whiteSpace. \<not> prefix q s"
  then have "find (\<lambda>p. prefix p s) whiteSpace = None"
    by (simp add: find_None_iff)
  then show "spaceWidth s = 0" by (simp add: spaceWidth_def)
qed

lemma spaceWidth_Nil [simp]: "spaceWidth [] = 0"
  using ws_nonempty by (auto simp: spaceWidth_zero)

text \<open>Bytes that follow do not change the rune at the head, unless they continue it.\<close>

lemma prefix_lookahead:
  assumes "p \<in> set whiteSpace" "s \<noteq> []" "r = [] \<or> \<not> contByte (hd r)"
  shows "prefix p (s @ r) \<longleftrightarrow> prefix p s"
proof
  assume "prefix p s" then show "prefix p (s @ r)" by (rule prefix_prefix)
next
  assume a: "prefix p (s @ r)"
  show "prefix p s"
  proof (rule ccontr)
    assume n: "\<not> prefix p s"
    with a obtain us where us: "p = s @ us" "prefix us r"
      by (auto simp: prefix_append)
    with n have ne: "us \<noteq> []" by auto
    with us(2) have hr: "r \<noteq> []" "hd us = hd r"
      by (auto simp: prefix_def)
    from assms(2) obtain c s' where "s = c # s'" by (auto simp: neq_Nil_conv)
    with us(1) ne have "hd us \<in> set (tl p)" by simp
    with assms(1) have "contByte (hd us)" by (rule ws_tl)
    with hr assms(3) show False by simp
  qed
qed

lemma spaceWidth_lookahead:
  assumes "s \<noteq> []" "r = [] \<or> \<not> contByte (hd r)"
  shows "spaceWidth (s @ r) = spaceWidth s"
proof -
  have "find (\<lambda>p. prefix p (s @ r)) whiteSpace = find (\<lambda>p. prefix p s) whiteSpace"
    using assms by (intro find_cong refl) (simp add: prefix_lookahead)
  then show ?thesis by (simp add: spaceWidth_def)
qed

lemma fieldsLoop_Nil: "fieldsLoop field [] = fieldOf field"
  by (simp add: fieldsLoop.simps fieldOf_def)

lemma fieldsLoop_byte:
  "spaceWidth (c # s) = 0 \<Longrightarrow> fieldsLoop field (c # s) = fieldsLoop (field @ [c]) s"
  by (simp add: fieldsLoop.simps)

lemma fieldsLoop_space:
  assumes "q \<in> set whiteSpace"
  shows "fieldsLoop field (q @ s) = fieldOf field @ fieldsLoop [] s"
proof -
  from ws_nonempty[OF assms] obtain c q' where q: "q = c # q'"
    by (auto simp: neq_Nil_conv)
  have w: "spaceWidth (q @ s) = length q"
    using assms by (rule spaceWidth_eq) simp
  then have "spaceWidth (c # q' @ s) = length q" using q by simp
  moreover have "drop (length q) (c # q' @ s) = s" using q by simp
  moreover have "length q \<noteq> 0" using q by simp
  ultimately show ?thesis
    unfolding q by (simp add: fieldsLoop.simps fieldOf_def del: length_0_conv)
qed

text \<open>White space cuts the string: the fields before it and the fields after it.\<close>

lemma fieldsLoop_append_space:
  assumes "q \<in> set whiteSpace"
  shows "fieldsLoop field (s @ q @ r) = fieldsLoop field s @ fieldsLoop [] r"
proof (induction "length s" arbitrary: s field rule: less_induct)
  case less
  show ?case
  proof (cases s)
    case Nil
    then show ?thesis using fieldsLoop_space[OF assms] by (simp add: fieldsLoop_Nil)
  next
    case (Cons c s')
    have hq: "\<not> contByte (hd (q @ r))"
      using ws_nonempty[OF assms] ws_hd[OF assms] by simp
    have la: "spaceWidth (s @ q @ r) = spaceWidth s"
      using Cons hq by (intro spaceWidth_lookahead) simp_all
    show ?thesis
    proof (cases "spaceWidth s = 0")
      case True
      with la Cons have "fieldsLoop field (s @ q @ r) = fieldsLoop (field @ [c]) (s' @ q @ r)"
        using fieldsLoop_byte[of c "s' @ q @ r" field] by simp
      also have "\<dots> = fieldsLoop (field @ [c]) s' @ fieldsLoop [] r"
        using less[of s'] Cons by simp
      also have "fieldsLoop (field @ [c]) s' = fieldsLoop field s"
        using True Cons fieldsLoop_byte[of c s' field] by simp
      finally show ?thesis .
    next
      case False
      then obtain p where p: "p \<in> set whiteSpace" "prefix p s" "spaceWidth s = length p"
        by (rule spaceWidth_pos)
      then obtain t where t: "s = p @ t" by (auto simp: prefix_def)
      have pn: "p \<noteq> []" using p(1) by (rule ws_nonempty)
      have "fieldsLoop field (s @ q @ r) = fieldOf field @ fieldsLoop [] (t @ q @ r)"
        using fieldsLoop_space[OF p(1), of field "t @ q @ r"] t by simp
      also have "fieldsLoop [] (t @ q @ r) = fieldsLoop [] t @ fieldsLoop [] r"
        using less[of t] t pn by simp
      also have "fieldOf field @ fieldsLoop [] t @ fieldsLoop [] r = fieldsLoop field s @ fieldsLoop [] r"
        using fieldsLoop_space[OF p(1), of field t] t by simp
      finally show ?thesis .
    qed
  qed
qed

lemma Fields_trimLeft: "Fields (trimLeft s) = Fields s"
proof (induction s rule: trimLeft.induct)
  case (1 s)
  show ?case
  proof (cases "spaceWidth s = 0")
    case True
    then show ?thesis by (simp add: trimLeft.simps)
  next
    case False
    then obtain p where p: "p \<in> set whiteSpace" "prefix p s" "spaceWidth s = length p"
      by (rule spaceWidth_pos)
    then obtain t where t: "s = p @ t" by (auto simp: prefix_def)
    have "Fields s = Fields t"
      using fieldsLoop_space[OF p(1), of "[]" t] t by (simp add: Fields_def fieldOf_def)
    moreover have "trimLeft s = trimLeft t"
      using False p(3) t by (subst trimLeft.simps) simp
    moreover have "Fields (trimLeft t) = Fields t"
      using 1[OF False] p(3) t by simp
    ultimately show ?thesis by simp
  qed
qed

lemma spaceWidthEnd_pos:
  assumes "spaceWidthEnd s \<noteq> 0"
  obtains q where "q \<in> set whiteSpace" "suffix q s" "spaceWidthEnd s = length q"
proof -
  from assms obtain p where f: "find (\<lambda>p. suffix p s) whiteSpace = Some p"
    by (cases "find (\<lambda>p. suffix p s) whiteSpace") (auto simp: spaceWidthEnd_def)
  then have "p \<in> set whiteSpace" "suffix p s"
    by (auto simp: find_Some_iff)
  moreover from f have "spaceWidthEnd s = length p"
    by (simp add: spaceWidthEnd_def)
  ultimately show ?thesis by (rule that)
qed

lemma Fields_trimRight: "Fields (trimRight s) = Fields s"
proof (induction s rule: trimRight.induct)
  case (1 s)
  show ?case
  proof (cases "spaceWidthEnd s = 0")
    case True
    then show ?thesis by (simp add: trimRight.simps)
  next
    case False
    then obtain p where p: "p \<in> set whiteSpace" "suffix p s" "spaceWidthEnd s = length p"
      by (rule spaceWidthEnd_pos)
    then obtain t where t: "s = t @ p" by (auto simp: suffix_def)
    have "Fields s = Fields t"
      using fieldsLoop_append_space[OF p(1), of "[]" t "[]"] t
      by (simp add: Fields_def fieldsLoop_Nil fieldOf_def)
    moreover have "trimRight s = trimRight t"
      using False p(3) t by (subst trimRight.simps) simp
    moreover have "Fields (trimRight t) = Fields t"
      using 1[OF False] p(3) t by simp
    ultimately show ?thesis by simp
  qed
qed

lemma Fields_TrimSpace: "Fields (TrimSpace s) = Fields s"
  by (simp add: TrimSpace_def Fields_trimRight Fields_trimLeft)

lemma collapseSpace_pass:
  "\<forall>x \<in> set p. \<not> perlSpace x \<Longrightarrow> collapseSpace (p @ t) = p @ collapseSpace t"
  by (induction p) simp_all

lemma prefix_collapseSpace:
  "\<forall>x \<in> set p. \<not> perlSpace x \<Longrightarrow> prefix p (collapseSpace t) \<longleftrightarrow> prefix p t"
proof (induction p arbitrary: t)
  case Nil
  then show ?case by simp
next
  case (Cons x p)
  show ?case
  proof (cases t)
    case Nil
    then show ?thesis by simp
  next
    case (Cons y t')
    show ?thesis
    proof (cases "perlSpace y")
      case True
      have "x \<noteq> CHR '' ''" using Cons.prems by (auto simp: perlSpace_def)
      moreover have "x \<noteq> y" using Cons.prems True by auto
      ultimately show ?thesis using Cons True by simp
    next
      case False
      then show ?thesis using Cons Cons.IH[of t'] Cons.prems by simp
    qed
  qed
qed

lemma spaceWidth_perl: "perlSpace c \<Longrightarrow> spaceWidth (c # s) = 1"
  using spaceWidth_eq[of "[c]" "c # s"] perl_ws[of c] by simp

lemma spaceWidth_collapseSpace:
  assumes "\<not> perlSpace c"
  shows "spaceWidth (c # collapseSpace s) = spaceWidth (c # s)"
proof -
  have "prefix p (c # collapseSpace s) \<longleftrightarrow> prefix p (c # s)" if p: "p \<in> set whiteSpace" for p
  proof (cases "perlSpace (hd p)")
    case True
    with assms have "hd p \<noteq> c" by auto
    with ws_nonempty[OF p] show ?thesis by (cases p) auto
  next
    case False
    with p ws_perl have "\<forall>x \<in> set p. \<not> perlSpace x" by blast
    from prefix_collapseSpace[OF this, of "c # s"] assms show ?thesis by simp
  qed
  then have "find (\<lambda>p. prefix p (c # collapseSpace s)) whiteSpace
           = find (\<lambda>p. prefix p (c # s)) whiteSpace"
    by (intro find_cong refl) simp
  then show ?thesis by (simp add: spaceWidth_def)
qed

lemma fieldsLoop_dropWhile_perl:
  "fieldsLoop [] (dropWhile perlSpace s) = fieldsLoop [] s"
proof (induction s)
  case Nil
  then show ?case by simp
next
  case (Cons c s)
  show ?case
  proof (cases "perlSpace c")
    case True
    then have "fieldsLoop [] (c # s) = fieldsLoop [] s"
      using fieldsLoop_space[OF perl_ws[OF True], of "[]" s] by (simp add: fieldOf_def)
    with True Cons show ?thesis by simp
  next
    case False
    then show ?thesis by simp
  qed
qed

lemma fieldsLoop_collapseSpace:
  "fieldsLoop field (collapseSpace s) = fieldsLoop field s"
proof (induction "length s" arbitrary: s field rule: less_induct)
  case less
  show ?case
  proof (cases s)
    case Nil
    then show ?thesis by simp
  next
    case (Cons c s')
    show ?thesis
    proof (cases "perlSpace c")
      case True
      have sp: "[CHR '' ''] \<in> set whiteSpace"
        by (rule perl_ws) (simp add: perlSpace_def)
      have "fieldsLoop field (collapseSpace s)
          = fieldOf field @ fieldsLoop [] (collapseSpace (dropWhile perlSpace s'))"
        using True Cons fieldsLoop_space[OF sp, of field] by simp
      also have "fieldsLoop [] (collapseSpace (dropWhile perlSpace s'))
          = fieldsLoop [] (dropWhile perlSpace s')"
        using Cons by (intro less) (simp add: less_Suc_eq_le length_dropWhile_le)
      also have "\<dots> = fieldsLoop [] s'" by (rule fieldsLoop_dropWhile_perl)
      also have "fieldOf field @ fieldsLoop [] s' = fieldsLoop field s"
        using Cons fieldsLoop_space[OF perl_ws[OF True], of field s'] by simp
      finally show ?thesis .
    next
      case False
      note np = False
      have cs: "collapseSpace s = c # collapseSpace s'" using Cons False by simp
      have sw: "spaceWidth (c # collapseSpace s') = spaceWidth s"
        using spaceWidth_collapseSpace[OF False] Cons by simp
      show ?thesis
      proof (cases "spaceWidth s = 0")
        case True
        have "fieldsLoop field (collapseSpace s) = fieldsLoop (field @ [c]) (collapseSpace s')"
          unfolding cs using True sw by (intro fieldsLoop_byte) simp
        also have "\<dots> = fieldsLoop (field @ [c]) s'"
          using Cons by (intro less) simp
        also have "\<dots> = fieldsLoop field s"
          using True Cons fieldsLoop_byte[of c s' field] by simp
        finally show ?thesis .
      next
        case False
        then obtain p where p: "p \<in> set whiteSpace" "prefix p s" "spaceWidth s = length p"
          by (rule spaceWidth_pos)
        then obtain t where t: "s = p @ t" by (auto simp: prefix_def)
        have pn: "p \<noteq> []" using p(1) by (rule ws_nonempty)
        with t Cons have "hd p = c" by (cases p) auto
        with np p(1) ws_perl have "\<forall>x \<in> set p. \<not> perlSpace x" by blast
        then have "collapseSpace s = p @ collapseSpace t"
          unfolding t by (rule collapseSpace_pass)
        then have "fieldsLoop field (collapseSpace s) = fieldOf field @ fieldsLoop [] (collapseSpace t)"
          using fieldsLoop_space[OF p(1)] by simp
        also have "fieldsLoop [] (collapseSpace t) = fieldsLoop [] t"
          using t pn by (intro less) simp
        also have "fieldOf field @ fieldsLoop [] t = fieldsLoop field s"
          using fieldsLoop_space[OF p(1), of field t] t by simp
        finally show ?thesis .
      qed
    qed
  qed
qed

lemma Fields_collapseSpace: "Fields (collapseSpace s) = Fields s"
  by (simp add: Fields_def fieldsLoop_collapseSpace)

lemma Fields_Nil [simp]: "Fields [] = []"
  by (simp add: Fields_def fieldsLoop_Nil fieldOf_def)

lemma calculateWordCount_Fields:
  "calculateWordCount xmlContent = int (length (Fields (replaceTags xmlContent)))"
proof -
  have "Fields (collapseSpace (TrimSpace (replaceTags xmlContent))) = Fields (replaceTags xmlContent)"
    by (simp add: Fields_collapseSpace Fields_TrimSpace)
  then show ?thesis
    by (cases "collapseSpace (TrimSpace (replaceTags xmlContent)) = []")
       (auto simp: calculateWordCount_def Let_def)
qed

lemma replaceTags_plain: "CHR ''<'' \<notin> set u \<Longrightarrow> replaceTags u = u"
  by (induction u) auto

lemma replaceTags_plain_append:
  "CHR ''<'' \<notin> set u \<Longrightarrow> replaceTags (u @ s) = u @ replaceTags s"
  by (induction u) auto

lemma replaceTags_tag:
  assumes "CHR ''>'' \<notin> set inner"
  shows "replaceTags (CHR ''<'' # inner @ CHR ''>'' # v) = CHR '' '' # replaceTags v"
proof -
  have "dropWhile (\<lambda>x. x \<noteq> CHR ''>'') (inner @ CHR ''>'' # v) = CHR ''>'' # v"
    using assms by (auto simp: dropWhile_append3)
  then show ?thesis by simp
qed

lemma Fields_space_append:
  "Fields (u @ CHR '' '' # w) = Fields u @ Fields w"
proof -
  have sp: "[CHR '' ''] \<in> set whiteSpace"
    by (rule perl_ws) (simp add: perlSpace_def)
  from fieldsLoop_append_space[OF sp, of "[]" u w] show ?thesis
    by (simp add: Fields_def)
qed

lemma calculateWordCount_across_tag:
  assumes "CHR ''<'' \<notin> set u" "CHR ''>'' \<notin> set inner"
  shows "calculateWordCount (u @ CHR ''<'' # inner @ CHR ''>'' # v)
       = calculateWordCount u + calculateWordCount v"
proof -
  have "replaceTags (u @ CHR ''<'' # inner @ CHR ''>'' # v) = u @ CHR '' '' # replaceTags v"
    using assms by (simp add: replaceTags_plain_append replaceTags_tag del: replaceTags.simps)
  then show ?thesis
    using assms(1)
    by (simp add: calculateWordCount_Fields Fields_space_append replaceTags_plain
        del: replaceTags.simps)
qed


lemma trimRight_Nil [simp]: "trimRight [] = []"
  by (subst trimRight.simps) (simp add: spaceWidthEnd_def whiteSpace_def asciiSpace_def unicodeSpace_def)




lemma wordCount_foo: "calculateWordCount ''foo'' = 1"
  by code_simp

lemma wordCount_bar: "calculateWordCount ''bar</b>'' = 1"
  by code_simp

text \<open>
  Claim C10. A tag, an opening angle bracket with no closing one inside up to the first
  closing one, that follows text without an opening bracket is replaced by one space:
  the words before it and the words after it are counted apart, the count of the whole
  being the sum of the two counts. The count of \<open>foo<b>bar</b>\<close> is 2.
\<close>

theorem C10_tag_becomes_a_space:
  assumes "CHR ''<'' \<notin> set before" "CHR ''>'' \<notin> set inside"
  shows "replaceTags (before @ CHR ''<'' # inside @ CHR ''>'' # after) =
           before @ CHR '' '' # replaceTags after \<and>
         calculateWordCount (before @ CHR ''<'' # inside @ CHR ''>'' # after) =
           calculateWordCount before + calculateWordCount after \<and>
         calculateWordCount ''foo<b>bar</b>'' = 2"
proof (intro conjI)
  show "replaceTags (before @ CHR ''<'' # inside @ CHR ''>'' # after) =
           before @ CHR '' '' # replaceTags after"
    using assms by (simp add: replaceTags_plain_append replaceTags_tag del: replaceTags.simps)
  show "calculateWordCount (before @ CHR ''<'' # inside @ CHR ''>'' # after) =
           calculateWordCount before + calculateWordCount after"
    using assms by (rule calculateWordCount_across_tag)
  show "calculateWordCount ''foo<b>bar</b>'' = 2"
    by code_simp
qed

text \<open>The theorem at \<open>foo<b>bar</b>\<close>: one word before the tag and one after it.\<close>

theorem C10_tag_becomes_a_space_witness:
  "CHR ''<'' \<notin> set ''foo'' \<and> CHR ''>'' \<notin> set ''b'' \<and>
   replaceTags ''foo<b>bar</b>'' = ''foo bar '' \<and>
   calculateWordCount ''foo<b>bar</b>'' = calculateWordCount ''foo'' + calculateWordCount ''bar</b>'' \<and>
   calculateWordCount ''foo'' + calculateWordCount ''bar</b>'' = 2"
  using C10_tag_becomes_a_space[of "''foo''" "''b''" "''bar</b>''"]
  by (simp add: wordCount_foo wordCount_bar)

section \<open>Content import\<close>

lemma firstOrCreate_present: "\<exists>r \<in> set rows. c r \<Longrightarrow> firstOrCreate c row rows = rows"
  by (cases "find c rows") (auto simp: firstOrCreate_def find_None_iff)

lemma find_Some_set: "find c rows = Some x \<Longrightarrow> c x \<and> x \<in> set rows"
  by (induction rows) (auto split: if_splits)

lemma downloadAndProcessTitle_existing_row:
  assumes "r \<in> set (title_contents db)" "TC_TitleID r = Title_ID title" "TC_ContentDate r = today"
  shows "downloadAndProcessTitle fails strategies today db title = db"
proof -
  have "\<exists>r \<in> set (title_contents db). TC_TitleID r = Title_ID title \<and> TC_ContentDate r = today"
    using assms by blast
  then show ?thesis
    by (simp add: downloadAndProcessTitle_def Let_def firstOrCreate_present
        split: prod.splits option.splits)
qed

lemma downloadAndProcessTitle_one_row:
  assumes "distinct (map (\<lambda>r. (TC_TitleID r, TC_ContentDate r)) (title_contents db))"
  shows "distinct (map (\<lambda>r. (TC_TitleID r, TC_ContentDate r))
           (title_contents (downloadAndProcessTitle fails strategies today db title)))"
proof -
  have "distinct (map (\<lambda>r. (TC_TitleID r, TC_ContentDate r))
          (firstOrCreate (\<lambda>r. TC_TitleID r = Title_ID title \<and> TC_ContentDate r = today)
             \<lparr>TC_TitleID = Title_ID title, TC_ContentDate = today, TC_XMLContent = content,
              TC_WordCount = w, TC_Checksum = c\<rparr> (title_contents db)))" for content w c
  proof (cases "find (\<lambda>r. TC_TitleID r = Title_ID title \<and> TC_ContentDate r = today) (title_contents db)")
    case None
    then have "(Title_ID title, today) \<notin> (\<lambda>r. (TC_TitleID r, TC_ContentDate r)) ` set (title_contents db)"
      by (auto simp: find_None_iff)
    with None assms show ?thesis by (simp add: firstOrCreate_def)
  next
    case (Some a)
    with assms show ?thesis by (simp add: firstOrCreate_def)
  qed
  then show ?thesis
    using assms
    by (simp add: downloadAndProcessTitle_def Let_def split: prod.splits option.splits)
qed

text \<open>
  Claim C3. The table keeps at most one row for a title and a date, but a second import
  on the same day does not update it: \<open>FirstOrCreate\<close> finds the row and writes
  nothing, against the comment ``update if exists for same title and date''. With the
  content ``abc'' stored for title 10 on day 1, a download of new content on day 1 leaves
  the table as it was.
\<close>

theorem C3_same_day_reimport_keeps_first_download:
  "downloadAndProcessTitle (\<lambda>c. False)
      (NewContentDownloader (\<lambda>n. Inr ''<p>amended text</p>'') (\<lambda>n d. Inl ''not tried''))
      1 (exampleDB [contentDay1]) title10
   = exampleDB [contentDay1] \<and>
   map TC_XMLContent (title_contents (exampleDB [contentDay1])) = [''abc''] \<and>
   DownloadTitleContent
      (NewContentDownloader (\<lambda>n. Inr ''<p>amended text</p>'') (\<lambda>n d. Inl ''not tried'')) 10
   = (''<p>amended text</p>'', None)"
proof -
  have "contentDay1 \<in> set (title_contents (exampleDB [contentDay1]))"
    by (simp add: exampleDB_def)
  moreover have "TC_TitleID contentDay1 = Title_ID title10" "TC_ContentDate contentDay1 = 1"
    by (simp_all add: contentDay1_def title10_def)
  ultimately have "downloadAndProcessTitle (\<lambda>c. False)
      (NewContentDownloader (\<lambda>n. Inr ''<p>amended text</p>'') (\<lambda>n d. Inl ''not tried''))
      1 (exampleDB [contentDay1]) title10 = exampleDB [contentDay1]"
    by (rule downloadAndProcessTitle_existing_row)
  then show ?thesis
    by (simp add: exampleDB_def contentDay1_def DownloadTitleContent_def NewContentDownloader_def
        NewBulkContentStrategy_def)
qed

section \<open>Historical snapshot service\<close>

lemma firstOrCreate_mono: "r \<in> set rows \<Longrightarrow> r \<in> set (firstOrCreate c row rows)"
  by (cases "find c rows") (auto simp: firstOrCreate_def)

lemma firstOrCreate_has: "c row \<Longrightarrow> \<exists>r \<in> set (firstOrCreate c row rows). c r"
  by (cases "find c rows") (auto simp: firstOrCreate_def dest: find_Some_set)

lemma hasSnapshot_firstOrCreate:
  "hasSnapshot rows d a t \<Longrightarrow> hasSnapshot (firstOrCreate c row rows) d a t"
  unfolding hasSnapshot_def using firstOrCreate_mono by fast

lemma hasSnapshot_created:
  "snapshotWhere d a t row \<Longrightarrow> hasSnapshot (firstOrCreate (snapshotWhere d a t) row rows) d a t"
  unfolding hasSnapshot_def by (rule firstOrCreate_has)

lemma firstOrCreate_snapshot_present:
  "hasSnapshot rows d a t \<Longrightarrow> firstOrCreate (snapshotWhere d a t) row rows = rows"
  unfolding hasSnapshot_def by (rule firstOrCreate_present)

lemma agencyLoop_mono:
  "hasSnapshot rows d' a t \<Longrightarrow> hasSnapshot (agencySnapshotLoop fails d rows items) d' a t"
  by (induction fails d rows items rule: agencySnapshotLoop.induct)
     (auto simp: hasSnapshot_firstOrCreate)

lemma agencyLoop_complete:
  "\<forall>c. \<not> fails c \<Longrightarrow> (agencyID, wordCount) \<in> set items \<Longrightarrow> wordCount \<noteq> 0 \<Longrightarrow>
   hasSnapshot (agencySnapshotLoop fails d rows items) d (Some agencyID) None"
proof (induction fails d rows items rule: agencySnapshotLoop.induct)
  case (1 fails snapshotDate rows)
  then show ?case by simp
next
  case (2 fails snapshotDate rows a w rest)
  show ?case
  proof (cases "(agencyID, wordCount) = (a, w)")
    case True
    have "hasSnapshot (firstOrCreate (snapshotWhere snapshotDate (Some a) None)
                \<lparr>HS_SnapshotDate = snapshotDate, HS_AgencyID = Some a, HS_TitleID = None,
                 HS_WordCount = Some w, HS_Checksum = None\<rparr> rows) snapshotDate (Some a) None"
      by (rule hasSnapshot_created) (simp add: snapshotWhere_def)
    then show ?thesis using True 2 by (auto simp: agencyLoop_mono)
  next
    case False
    with 2 show ?thesis by auto
  qed
qed

lemma agencyLoop_idem:
  "\<forall>(agencyID, wordCount) \<in> set items. wordCount \<noteq> 0 \<longrightarrow> hasSnapshot rows d (Some agencyID) None \<Longrightarrow>
   agencySnapshotLoop fails d rows items = rows"
  by (induction fails d rows items rule: agencySnapshotLoop.induct)
     (auto simp: firstOrCreate_snapshot_present)

lemma titleLoop_mono:
  "hasSnapshot rows d' a t \<Longrightarrow> hasSnapshot (titleSnapshotLoop fails d rows items) d' a t"
  by (induction fails d rows items rule: titleSnapshotLoop.induct)
     (auto simp: hasSnapshot_firstOrCreate)

lemma titleLoop_complete:
  "\<forall>c. \<not> fails c \<Longrightarrow> tc \<in> set items \<Longrightarrow> counted tc \<Longrightarrow>
   hasSnapshot (titleSnapshotLoop fails d rows items) d None (Some (TC_TitleID tc))"
proof (induction fails d rows items rule: titleSnapshotLoop.induct)
  case (1 fails snapshotDate rows)
  then show ?case by simp
next
  case (2 fails snapshotDate rows x rest)
  show ?case
  proof (cases "tc = x")
    case True
    have "hasSnapshot (firstOrCreate (snapshotWhere snapshotDate None (Some (TC_TitleID x)))
                \<lparr>HS_SnapshotDate = snapshotDate, HS_AgencyID = None,
                 HS_TitleID = Some (TC_TitleID x), HS_WordCount = TC_WordCount x,
                 HS_Checksum = TC_Checksum x\<rparr> rows) snapshotDate None (Some (TC_TitleID x))"
      by (rule hasSnapshot_created) (simp add: snapshotWhere_def)
    then show ?thesis using True 2 by (auto simp: titleLoop_mono counted_def)
  next
    case False
    with 2 show ?thesis by (auto simp: counted_def)
  qed
qed

lemma titleLoop_idem:
  "\<forall>tc \<in> set items. counted tc \<longrightarrow> hasSnapshot rows d None (Some (TC_TitleID tc)) \<Longrightarrow>
   titleSnapshotLoop fails d rows items = rows"
  by (induction fails d rows items rule: titleSnapshotLoop.induct)
     (auto simp: firstOrCreate_snapshot_present counted_def)

lemma agencyWordCountRows_frame [simp]:
  "agencyWordCountRows (db\<lparr>historical_snapshots := x\<rparr>) d = agencyWordCountRows db d"
  by (simp add: agencyWordCountRows_def cong: if_cong)

lemma queryAgencyWordCounts_frame [simp]:
  "queryAgencyWordCounts plan (db\<lparr>historical_snapshots := x\<rparr>) d = queryAgencyWordCounts plan db d"
  by (simp add: queryAgencyWordCounts_def)

lemma set_queryAgencyWordCounts [simp]:
  "set (queryAgencyWordCounts plan db d) = set (agencyWordCountRows db d)"
  by (simp add: queryAgencyWordCounts_def)

lemma latestContentDate_frame [simp]:
  "latestContentDate (db\<lparr>historical_snapshots := x\<rparr>) = latestContentDate db"
  by (simp add: latestContentDate_def)

lemma captureOverall_idem:
  "hasSnapshot (historical_snapshots db) d None None \<Longrightarrow>
   snd (captureOverallSnapshot fails db d) = db"
  by (simp add: captureOverallSnapshot_def Let_def firstOrCreate_snapshot_present)

lemma captureAgency_idem:
  "\<forall>(agencyID, wordCount) \<in> set (agencyWordCountRows db d).
      wordCount \<noteq> 0 \<longrightarrow> hasSnapshot (historical_snapshots db) d (Some agencyID) None \<Longrightarrow>
   snd (captureAgencySnapshots fails plan db d) = db"
  by (simp add: captureAgencySnapshots_def agencyLoop_idem)

lemma captureTitle_idem:
  "\<forall>tc \<in> set (title_contents db). TC_ContentDate tc = d \<and> counted tc \<longrightarrow>
      hasSnapshot (historical_snapshots db) d None (Some (TC_TitleID tc)) \<Longrightarrow>
   snd (captureTitleSnapshots fails plan db d) = db"
  by (simp add: captureTitleSnapshots_def titleLoop_idem)

lemma CaptureSnapshot_idem:
  assumes "captured db"
  shows "snd (CaptureSnapshot fails plan db) = db"
proof -
  let ?d = "latestContentDate db"
  have o: "snd (captureOverallSnapshot fails db ?d) = db"
    using assms by (intro captureOverall_idem) (simp add: captured_def)
  have a: "snd (captureAgencySnapshots fails plan db ?d) = db"
    using assms by (intro captureAgency_idem) (simp add: captured_def)
  have t: "snd (captureTitleSnapshots fails plan db ?d) = db"
    using assms by (intro captureTitle_idem) (simp add: captured_def)
  obtain eo where eo: "captureOverallSnapshot fails db ?d = (eo, db)"
    using o by (cases "captureOverallSnapshot fails db ?d") simp
  obtain ea where ea: "captureAgencySnapshots fails plan db ?d = (ea, db)"
    using a by (cases "captureAgencySnapshots fails plan db ?d") simp
  obtain et where et: "captureTitleSnapshots fails plan db ?d = (et, db)"
    using t by (cases "captureTitleSnapshots fails plan db ?d") simp
  show ?thesis
    unfolding CaptureSnapshot_def Let_def
    by (simp add: eo ea et split: option.splits)
qed

lemma CaptureSnapshot_nofail:
  assumes "\<forall>c. \<not> fails c" "title_contents db \<noteq> []"
  shows "CaptureSnapshot fails plan db =
    (None, db\<lparr>historical_snapshots :=
       titleSnapshotLoop fails (latestContentDate db)
         (agencySnapshotLoop fails (latestContentDate db)
            (firstOrCreate (snapshotWhere (latestContentDate db) None None)
               \<lparr>HS_SnapshotDate = latestContentDate db, HS_AgencyID = None, HS_TitleID = None,
                HS_WordCount = Some (sum_list
                  [w. tc \<leftarrow> title_contents db, TC_ContentDate tc = latestContentDate db,
                      Some w \<leftarrow> [TC_WordCount tc]]),
                HS_Checksum = None\<rparr>
               (historical_snapshots db))
            (queryAgencyWordCounts plan db (latestContentDate db)))
         (serverOrder (plan FindTitleContents)
            (filter (\<lambda>tc. TC_ContentDate tc = latestContentDate db) (title_contents db)))\<rparr>)"
  using assms
  by (simp add: CaptureSnapshot_def captureOverallSnapshot_def captureAgencySnapshots_def
      captureTitleSnapshots_def Let_def)

lemma CaptureSnapshot_captured:
  assumes nf: "\<forall>c. \<not> fails c" and ne: "title_contents db \<noteq> []"
  shows "captured (snd (CaptureSnapshot fails plan db))"
proof -
  let ?d = "latestContentDate db"
  let ?snap = "\<lparr>HS_SnapshotDate = ?d, HS_AgencyID = None, HS_TitleID = None,
                HS_WordCount = Some (sum_list
                  [w. tc \<leftarrow> title_contents db, TC_ContentDate tc = ?d,
                      Some w \<leftarrow> [TC_WordCount tc]]),
                HS_Checksum = None\<rparr>"
  let ?S1 = "firstOrCreate (snapshotWhere ?d None None) ?snap (historical_snapshots db)"
  let ?S2 = "agencySnapshotLoop fails ?d ?S1 (queryAgencyWordCounts plan db ?d)"
  let ?items = "serverOrder (plan FindTitleContents)
      (filter (\<lambda>tc. TC_ContentDate tc = ?d) (title_contents db))"
  let ?S3 = "titleSnapshotLoop fails ?d ?S2 ?items"
  have r: "snd (CaptureSnapshot fails plan db) = db\<lparr>historical_snapshots := ?S3\<rparr>"
    using CaptureSnapshot_nofail[OF nf ne] by simp
  have h1: "hasSnapshot ?S1 ?d None None"
    by (rule hasSnapshot_created) (simp add: snapshotWhere_def)
  then have o: "hasSnapshot ?S3 ?d None None"
    by (intro titleLoop_mono agencyLoop_mono)
  have a: "hasSnapshot ?S3 ?d (Some agencyID) None"
    if "(agencyID, wordCount) \<in> set (agencyWordCountRows db ?d)" "wordCount \<noteq> 0"
    for agencyID wordCount
  proof -
    from that(1) have "(agencyID, wordCount) \<in> set (queryAgencyWordCounts plan db ?d)"
      by simp
    from agencyLoop_complete[OF nf this that(2)] show ?thesis by (intro titleLoop_mono)
  qed
  have t: "hasSnapshot ?S3 ?d None (Some (TC_TitleID tc))"
    if "tc \<in> set (title_contents db)" "TC_ContentDate tc = ?d" "counted tc" for tc
    using titleLoop_complete[OF nf, of tc ?items ?d ?S2] that by simp
  show ?thesis
    unfolding r captured_def using o a t by auto
qed

lemma CaptureSnapshot_empty:
  "title_contents db = [] \<Longrightarrow> snd (CaptureSnapshot fails plan db) = db"
  by (simp add: CaptureSnapshot_def)

lemma firstOrCreate_keeps_key:
  assumes "hasSnapshot rows d a t" "snapshotWhere d' a' t' row"
  shows "filter (snapshotWhere d a t) (firstOrCreate (snapshotWhere d' a' t') row rows) =
         filter (snapshotWhere d a t) rows"
proof (cases "find (snapshotWhere d' a' t') rows")
  case None
  then have n: "\<forall>r \<in> set rows. \<not> snapshotWhere d' a' t' r"
    by (simp add: find_None_iff)
  from assms(1) obtain r where r: "r \<in> set rows" "snapshotWhere d a t r"
    unfolding hasSnapshot_def by blast
  with n have "\<not> snapshotWhere d' a' t' r" by blast
  with r(2) have "(d, a, t) \<noteq> (d', a', t')" by (auto simp: snapshotWhere_def)
  with assms(2) have "\<not> snapshotWhere d a t row" by (auto simp: snapshotWhere_def)
  with None show ?thesis by (simp add: firstOrCreate_def)
next
  case (Some found)
  then show ?thesis by (simp add: firstOrCreate_def)
qed

lemma agencyLoop_keeps_key:
  "hasSnapshot rows d a t \<Longrightarrow>
   filter (snapshotWhere d a t) (agencySnapshotLoop fails sd rows items) =
   filter (snapshotWhere d a t) rows"
proof (induction fails sd rows items rule: agencySnapshotLoop.induct)
  case (1 fails snapshotDate rows)
  then show ?case by simp
next
  case (2 fails snapshotDate rows agencyID wordCount rest)
  let ?row = "\<lparr>HS_SnapshotDate = snapshotDate, HS_AgencyID = Some agencyID, HS_TitleID = None,
                 HS_WordCount = Some wordCount, HS_Checksum = None\<rparr>"
  have k: "snapshotWhere snapshotDate (Some agencyID) None ?row"
    by (simp add: snapshotWhere_def)
  from 2 firstOrCreate_keeps_key[OF "2.prems" k]
    hasSnapshot_firstOrCreate[OF "2.prems", of "snapshotWhere snapshotDate (Some agencyID) None" ?row]
  show ?case by simp
qed

lemma titleLoop_keeps_key:
  "hasSnapshot rows d a t \<Longrightarrow>
   filter (snapshotWhere d a t) (titleSnapshotLoop fails sd rows items) =
   filter (snapshotWhere d a t) rows"
proof (induction fails sd rows items rule: titleSnapshotLoop.induct)
  case (1 fails snapshotDate rows)
  then show ?case by simp
next
  case (2 fails snapshotDate rows tc rest)
  let ?row = "\<lparr>HS_SnapshotDate = snapshotDate, HS_AgencyID = None,
                 HS_TitleID = Some (TC_TitleID tc), HS_WordCount = TC_WordCount tc,
                 HS_Checksum = TC_Checksum tc\<rparr>"
  have k: "snapshotWhere snapshotDate None (Some (TC_TitleID tc)) ?row"
    by (simp add: snapshotWhere_def)
  from 2 firstOrCreate_keeps_key[OF "2.prems" k]
    hasSnapshot_firstOrCreate[OF "2.prems", of "snapshotWhere snapshotDate None (Some (TC_TitleID tc))" ?row]
  show ?case by simp
qed

lemma captureOverall_keeps_key:
  assumes "hasSnapshot (historical_snapshots db) d a t"
  shows "filter (snapshotWhere d a t) (historical_snapshots (snd (captureOverallSnapshot fails db sd))) =
         filter (snapshotWhere d a t) (historical_snapshots db) \<and>
         hasSnapshot (historical_snapshots (snd (captureOverallSnapshot fails db sd))) d a t"
  using assms
  by (simp add: captureOverallSnapshot_def Let_def firstOrCreate_keeps_key snapshotWhere_def
      hasSnapshot_firstOrCreate)

lemma captureAgency_keeps_key:
  assumes "hasSnapshot (historical_snapshots db) d a t"
  shows "filter (snapshotWhere d a t) (historical_snapshots (snd (captureAgencySnapshots fails plan db sd))) =
         filter (snapshotWhere d a t) (historical_snapshots db) \<and>
         hasSnapshot (historical_snapshots (snd (captureAgencySnapshots fails plan db sd))) d a t"
  using assms
  by (simp add: captureAgencySnapshots_def agencyLoop_keeps_key agencyLoop_mono)

lemma captureTitle_keeps_key:
  assumes "hasSnapshot (historical_snapshots db) d a t"
  shows "filter (snapshotWhere d a t) (historical_snapshots (snd (captureTitleSnapshots fails plan db sd))) =
         filter (snapshotWhere d a t) (historical_snapshots db) \<and>
         hasSnapshot (historical_snapshots (snd (captureTitleSnapshots fails plan db sd))) d a t"
  using assms
  by (simp add: captureTitleSnapshots_def titleLoop_keeps_key titleLoop_mono)

lemma CaptureSnapshot_keeps_key:
  assumes "hasSnapshot (historical_snapshots db) d a t"
  shows "filter (snapshotWhere d a t) (historical_snapshots (snd (CaptureSnapshot fails plan db))) =
         filter (snapshotWhere d a t) (historical_snapshots db)"
proof -
  let ?sd = "latestContentDate db"
  obtain e1 db1 where s1: "captureOverallSnapshot fails db ?sd = (e1, db1)"
    by (cases "captureOverallSnapshot fails db ?sd")
  obtain e2 db2 where s2: "captureAgencySnapshots fails plan db1 ?sd = (e2, db2)"
    by (cases "captureAgencySnapshots fails plan db1 ?sd")
  obtain e3 db3 where s3: "captureTitleSnapshots fails plan db2 ?sd = (e3, db3)"
    by (cases "captureTitleSnapshots fails plan db2 ?sd")
  from captureOverall_keeps_key[OF assms, of fails ?sd] s1
  have k1: "filter (snapshotWhere d a t) (historical_snapshots db1) =
            filter (snapshotWhere d a t) (historical_snapshots db)"
    and h1: "hasSnapshot (historical_snapshots db1) d a t" by simp_all
  from captureAgency_keeps_key[OF h1, of fails plan ?sd] s2
  have k2: "filter (snapshotWhere d a t) (historical_snapshots db2) =
            filter (snapshotWhere d a t) (historical_snapshots db1)"
    and h2: "hasSnapshot (historical_snapshots db2) d a t" by simp_all
  from captureTitle_keeps_key[OF h2, of fails plan ?sd] s3
  have k3: "filter (snapshotWhere d a t) (historical_snapshots db3) =
            filter (snapshotWhere d a t) (historical_snapshots db2)" by simp
  show ?thesis
    by (simp add: CaptureSnapshot_def Let_def s1 s2 s3 k1 k2 k3 split: option.splits)
qed

text \<open>
  Claim C6. Every write of \<open>CaptureSnapshot\<close> is a find-or-create on the date, the
  agency and the title: whatever calls fail and in whatever order the server returns the
  rows, a run leaves the rows of a key that is in the table as they are. After a run in
  which no storage call failed, running it again writes nothing, whatever calls fail the
  second time and whatever the order of the rows in either run: the store, and with it
  the number of snapshot rows, is what the first run left.
\<close>

theorem C6_capture_rerun_is_noop:
  "(hasSnapshot (historical_snapshots db0) d a t \<longrightarrow>
      filter (snapshotWhere d a t)
        (historical_snapshots (snd (CaptureSnapshot fails0 plan0 db0))) =
      filter (snapshotWhere d a t) (historical_snapshots db0)) \<and>
   ((\<forall>c. \<not> fails c) \<longrightarrow>
      snd (CaptureSnapshot fails2 plan2 (snd (CaptureSnapshot fails plan db))) =
        snd (CaptureSnapshot fails plan db) \<and>
      length (historical_snapshots
        (snd (CaptureSnapshot fails2 plan2 (snd (CaptureSnapshot fails plan db))))) =
      length (historical_snapshots (snd (CaptureSnapshot fails plan db))))"
proof (intro conjI impI)
  assume "hasSnapshot (historical_snapshots db0) d a t"
  then show "filter (snapshotWhere d a t)
        (historical_snapshots (snd (CaptureSnapshot fails0 plan0 db0))) =
      filter (snapshotWhere d a t) (historical_snapshots db0)"
    by (rule CaptureSnapshot_keeps_key)
next
  assume nf: "\<forall>c. \<not> fails c"
  show r: "snd (CaptureSnapshot fails2 plan2 (snd (CaptureSnapshot fails plan db))) =
        snd (CaptureSnapshot fails plan db)"
  proof (cases "title_contents db = []")
    case True
    then show ?thesis by (simp add: CaptureSnapshot_empty)
  next
    case False
    from CaptureSnapshot_captured[OF nf False] show ?thesis
      by (rule CaptureSnapshot_idem)
  qed
  show "length (historical_snapshots
        (snd (CaptureSnapshot fails2 plan2 (snd (CaptureSnapshot fails plan db))))) =
      length (historical_snapshots (snd (CaptureSnapshot fails plan db)))"
    by (simp only: r)
qed

lemma capture_example:
  "historical_snapshots
     (snd (CaptureSnapshot (\<lambda>c. False) heapOrder (exampleDB [contentDay1, contentDay2]))) =
     [\<lparr>HS_SnapshotDate = 2, HS_AgencyID = None, HS_TitleID = None,
       HS_WordCount = Some 1, HS_Checksum = None\<rparr>,
      \<lparr>HS_SnapshotDate = 2, HS_AgencyID = Some 7, HS_TitleID = None,
       HS_WordCount = Some 1, HS_Checksum = None\<rparr>,
      \<lparr>HS_SnapshotDate = 2, HS_AgencyID = None, HS_TitleID = Some 1,
       HS_WordCount = Some 1,
       HS_Checksum = Some ''248d6a61d20638b8e5c026930c3e6039a33ce45964ff2167f6ecedd419db06c1''\<rparr>]"
  by code_simp

text \<open>
  The theorem at the store with two downloads: three rows after the first run and after
  a second run that reads backward, and one overall row of day 2 before and after a
  second run whose agency query fails.
\<close>

theorem C6_capture_rerun_is_noop_witness:
  "(\<forall>c. \<not> (\<lambda>c. False) c) \<and>
   hasSnapshot (historical_snapshots
     (snd (CaptureSnapshot (\<lambda>c. False) heapOrder (exampleDB [contentDay1, contentDay2]))))
     2 None None \<and>
   length (filter (snapshotWhere 2 None None) (historical_snapshots
     (snd (CaptureSnapshot (\<lambda>c. c = AgencyWordCounts) backwardOrder
        (snd (CaptureSnapshot (\<lambda>c. False) heapOrder (exampleDB [contentDay1, contentDay2]))))))) = 1 \<and>
   length (historical_snapshots
     (snd (CaptureSnapshot (\<lambda>c. False) heapOrder (exampleDB [contentDay1, contentDay2])))) = 3 \<and>
   length (historical_snapshots
     (snd (CaptureSnapshot (\<lambda>c. False) backwardOrder
        (snd (CaptureSnapshot (\<lambda>c. False) heapOrder (exampleDB [contentDay1, contentDay2])))))) = 3"
  using C6_capture_rerun_is_noop[of
      "snd (CaptureSnapshot (\<lambda>c. False) heapOrder (exampleDB [contentDay1, contentDay2]))"
      2 None None "\<lambda>c. c = AgencyWordCounts" backwardOrder
      "\<lambda>c. False" "\<lambda>c. False" backwardOrder heapOrder
      "exampleDB [contentDay1, contentDay2]"]
    capture_example
  by (simp add: hasSnapshot_def snapshotWhere_def)

section \<open>Trend series\<close>

lemma length_historyPoints [simp]: "length (historyPoints xs) = length xs"
  by (simp add: historyPoints_def)

lemma nth_historyPoints:
  "i < length xs \<Longrightarrow> historyPoints xs ! i =
     \<lparr>HP_Date = fst (xs ! i), HP_WordCount = snd (xs ! i),
      HP_ChangePercent =
        (if 0 < i \<and> 0 < snd (xs ! (i - 1))
         then changePercent (snd (xs ! (i - 1))) (snd (xs ! i)) else 0)\<rparr>"
  by (simp add: historyPoints_def)

lemma dates_historyPoints: "map HP_Date (historyPoints xs) = map fst xs"
  by (rule nth_equalityI) (simp_all add: nth_historyPoints)

lemma historyPoints_change:
  assumes "i < length (historyPoints xs)"
  shows "HP_ChangePercent (historyPoints xs ! i) =
     (if i = 0 \<or> HP_WordCount (historyPoints xs ! (i - 1)) \<le> 0 then 0
      else changePercent (HP_WordCount (historyPoints xs ! (i - 1)))
             (HP_WordCount (historyPoints xs ! i)))"
proof -
  from assms have i: "i < length xs" by simp
  then have "i - 1 < length xs" by simp
  with i show ?thesis by (auto simp: nth_historyPoints)
qed

lemma historyPoints_sorted: "sorted (map HP_Date (historyPoints (sort_key fst xs)))"
  by (simp add: dates_historyPoints)

lemma changePercent_examples:
  "changePercent 100 150 = 50" "changePercent 150 120 = - 20"
  by code_simp+

lemma historyPoints_example:
  "map HP_ChangePercent (historyPoints [(d, 100), (d + 1, 150), (d + 2, 120)]) = [0, 50, - 20]"
  by (simp add: historyPoints_def changePercent_examples upt_rec[of 0] upt_rec[of 1] upt_rec[of 2]
      nth_Cons')

text \<open>
  Claim C9. In whatever order the server returns snapshots of one date, the points of
  the overall and of the agency history are ordered by date; the change of the first
  point, and of a point whose predecessor has no positive word count, is 0, and the
  change of every other point is the float64 value of \<open>(cur - prev) / prev * 100\<close> for
  the word counts of the point and its predecessor. For the word counts 100, 150, 120
  the changes are 0, 50 and -20.
\<close>

theorem C9_trend_change_percent:
  "(getOverallHistory fails plan db startDate endDate = Inr history \<longrightarrow>
      sorted (map HP_Date history) \<and>
      (\<forall>i < length history. HP_ChangePercent (history ! i) =
         (if i = 0 \<or> HP_WordCount (history ! (i - 1)) \<le> 0 then 0
          else changePercent (HP_WordCount (history ! (i - 1))) (HP_WordCount (history ! i))))) \<and>
   (getAgencyHistory fails plan db agencySlug startDate endDate = Inr agencyHistory \<longrightarrow>
      sorted (map HP_Date agencyHistory) \<and>
      (\<forall>i < length agencyHistory. HP_ChangePercent (agencyHistory ! i) =
         (if i = 0 \<or> HP_WordCount (agencyHistory ! (i - 1)) \<le> 0 then 0
          else changePercent (HP_WordCount (agencyHistory ! (i - 1)))
                 (HP_WordCount (agencyHistory ! i))))) \<and>
   map HP_ChangePercent (historyPoints [(d, 100), (d + 1, 150), (d + 2, 120)]) = [0, 50, - 20]"
proof (intro conjI impI)
  assume "getOverallHistory fails plan db startDate endDate = Inr history"
  then obtain xs where h: "history = historyPoints (sort_key fst xs)"
    by (auto simp: getOverallHistory_def split: if_splits)
  show "sorted (map HP_Date history)" unfolding h by (rule historyPoints_sorted)
  show "\<forall>i < length history. HP_ChangePercent (history ! i) =
         (if i = 0 \<or> HP_WordCount (history ! (i - 1)) \<le> 0 then 0
          else changePercent (HP_WordCount (history ! (i - 1))) (HP_WordCount (history ! i)))"
    unfolding h using historyPoints_change by blast
next
  assume "getAgencyHistory fails plan db agencySlug startDate endDate = Inr agencyHistory"
  then obtain xs where h: "agencyHistory = historyPoints (sort_key fst xs)"
    by (auto simp: getAgencyHistory_def split: if_splits)
  show "sorted (map HP_Date agencyHistory)" unfolding h by (rule historyPoints_sorted)
  show "\<forall>i < length agencyHistory. HP_ChangePercent (agencyHistory ! i) =
         (if i = 0 \<or> HP_WordCount (agencyHistory ! (i - 1)) \<le> 0 then 0
          else changePercent (HP_WordCount (agencyHistory ! (i - 1)))
                 (HP_WordCount (agencyHistory ! i)))"
    unfolding h using historyPoints_change by blast
next
  show "map HP_ChangePercent (historyPoints [(d, 100), (d + 1, 150), (d + 2, 120)]) = [0, 50, - 20]"
    by (rule historyPoints_example)
qed

lemma trendDB_overall:
  "getOverallHistory (\<lambda>c. False) backwardOrder trendDB 0 9 =
     Inr [\<lparr>HP_Date = 1, HP_WordCount = 100, HP_ChangePercent = 0\<rparr>,
          \<lparr>HP_Date = 2, HP_WordCount = 150, HP_ChangePercent = 50\<rparr>,
          \<lparr>HP_Date = 3, HP_WordCount = 120, HP_ChangePercent = - 20\<rparr>]"
  by code_simp

lemma trendDB_agency:
  "getAgencyHistory (\<lambda>c. False) backwardOrder trendDB ''dept-examples'' 0 9 =
     Inr [\<lparr>HP_Date = 2, HP_WordCount = 40, HP_ChangePercent = 0\<rparr>]"
  by code_simp

text \<open>The theorem at a store with those three overall snapshots.\<close>

theorem C9_trend_change_percent_witness:
  "getOverallHistory (\<lambda>c. False) backwardOrder trendDB 0 9 =
     Inr [\<lparr>HP_Date = 1, HP_WordCount = 100, HP_ChangePercent = 0\<rparr>,
          \<lparr>HP_Date = 2, HP_WordCount = 150, HP_ChangePercent = 50\<rparr>,
          \<lparr>HP_Date = 3, HP_WordCount = 120, HP_ChangePercent = - 20\<rparr>] \<and>
   getAgencyHistory (\<lambda>c. False) backwardOrder trendDB ''dept-examples'' 0 9 =
     Inr [\<lparr>HP_Date = 2, HP_WordCount = 40, HP_ChangePercent = 0\<rparr>] \<and>
   sorted (map HP_Date
     [\<lparr>HP_Date = 1, HP_WordCount = 100, HP_ChangePercent = 0\<rparr>,
      \<lparr>HP_Date = 2, HP_WordCount = 150, HP_ChangePercent = 50\<rparr>,
      \<lparr>HP_Date = 3, HP_WordCount = 120, HP_ChangePercent = - 20\<rparr>]) \<and>
   changePercent 100 150 = 50 \<and> changePercent 150 120 = - 20"
proof -
  note T = C9_trend_change_percent[of "\<lambda>c. False" backwardOrder trendDB 0 9
      "[\<lparr>HP_Date = 1, HP_WordCount = 100, HP_ChangePercent = 0\<rparr>,
        \<lparr>HP_Date = 2, HP_WordCount = 150, HP_ChangePercent = 50\<rparr>,
        \<lparr>HP_Date = 3, HP_WordCount = 120, HP_ChangePercent = - 20\<rparr>]"
      "''dept-examples''"
      "[\<lparr>HP_Date = 2, HP_WordCount = 40, HP_ChangePercent = 0\<rparr>]" 0]
  from T[THEN conjunct1] trendDB_overall
  have c: "\<forall>i < 3. HP_ChangePercent
       ([\<lparr>HP_Date = 1, HP_WordCount = 100, HP_ChangePercent = 0\<rparr>,
        \<lparr>HP_Date = 2, HP_WordCount = 150, HP_ChangePercent = 50\<rparr>,
        \<lparr>HP_Date = 3, HP_WordCount = 120, HP_ChangePercent = - 20\<rparr>] ! i) =
         (if i = 0 \<or> HP_WordCount ([\<lparr>HP_Date = 1, HP_WordCount = 100, HP_ChangePercent = 0\<rparr>,
        \<lparr>HP_Date = 2, HP_WordCount = 150, HP_ChangePercent = 50\<rparr>,
        \<lparr>HP_Date = 3, HP_WordCount = 120, HP_ChangePercent = - 20\<rparr>] ! (i - 1)) \<le> 0 then 0
          else changePercent (HP_WordCount ([\<lparr>HP_Date = 1, HP_WordCount = 100, HP_ChangePercent = 0\<rparr>,
        \<lparr>HP_Date = 2, HP_WordCount = 150, HP_ChangePercent = 50\<rparr>,
        \<lparr>HP_Date = 3, HP_WordCount = 120, HP_ChangePercent = - 20\<rparr>] ! (i - 1))) (HP_WordCount ([\<lparr>HP_Date = 1, HP_WordCount = 100, HP_ChangePercent = 0\<rparr>,
        \<lparr>HP_Date = 2, HP_WordCount = 150, HP_ChangePercent = 50\<rparr>,
        \<lparr>HP_Date = 3, HP_WordCount = 120, HP_ChangePercent = - 20\<rparr>] ! i)))"
    by simp
  from c[rule_format, of 1] have c1: "changePercent 100 150 = 50" by simp
  from c[rule_format, of 2] have c2: "changePercent 150 120 = - 20" by simp
  show ?thesis using trendDB_overall trendDB_agency c1 c2 by simp
qed

end
